theory Spec2Isabelle
  imports Main "HOL-Library.AList"
begin

section \<open>The relational stores\<close>

text \<open>
  The program talks to two PostgreSQL stores through psycopg2. The stores are modelled
  as far as the program observes them: a list of tables, each with its schema, its name,
  its columns in catalog order and its committed rows. A value is SQL NULL (Python's
  \<open>None\<close>) or a number; timestamps such as \<open>updated_date\<close> are numbers.
  Identifiers are compared as they are written (the examples use lower-case names, which
  PostgreSQL leaves as they are).
\<close>

datatype val = Null | Num int

type_synonym row = "val list"

text \<open>
  The statements the program sends, with their parameters bound. The predicate of
  \<open>SelectFrom\<close> is \<open>None\<close> when the text has no WHERE clause and \<open>Some v\<close> for
  \<open>WHERE updated_date > '{v}'\<close>, where \<open>v\<close> is the Python value the f-string renders
  (\<open>Null\<close> is rendered as the text \<open>None\<close>).
\<close>

datatype statement =
    SelectColumns string
  | SelectCount string string
  | SelectMax string string
  | SelectFrom "string list" string string "val option"
  | InsertInto string string "string list" row
  | CommitTx

datatype error =
    FileNotFoundError string
  | YAMLError
  | KeyError string
  | TypeError
  | IndexError
  | AttributeError
  | OperationalError
  | UndefinedTable string string
  | UndefinedColumn string
  | SyntaxError
  | DuplicateColumn
  | InvalidTextRepresentation
  | DatabaseError statement

record table =
  tschema :: string
  tname :: string
  columns :: "(string \<times> string) list"
  stored :: "row list"

text \<open>
  \<open>rejects\<close> stands for everything else that makes the engine refuse a statement
  (a constraint, a permission, a lost link): the engine raises on exactly the statements
  it holds for.
\<close>

record database =
  tables :: "table list"
  rejects :: "statement \<Rightarrow> bool"

type_synonym conn_params = "string \<times> string \<times> string \<times> string \<times> string"

datatype yaml_value = YMapping "(string \<times> string) list" | YOther

datatype file_content = Unparsable | Yaml yaml_value

text \<open>
  What the program can observe or change: the configuration files, the stores that
  accept a connection (by connection parameters), the sessions that are open, the
  errors given to \<open>logging.error\<close> and to \<open>print\<close>, and the sequence of calls
  made on the database interface.
\<close>

datatype event =
    Connected conn_params
  | Executed conn_params statement
  | Fetched "row list"
  | ExecutedMany conn_params "row list"
  | Committed conn_params
  | Closed conn_params

record world =
  files :: "(string \<times> file_content) list"
  servers :: "(conn_params \<times> database) list"
  sessions :: "conn_params list"
  error_log :: "error list"
  printed :: "error list"
  trace :: "event list"

text \<open>A psycopg2 connection object: the store it is bound to and its open transaction.\<close>

record connection =
  server :: conn_params
  pending :: "(string \<times> string \<times> row) list"

definition emit :: "event \<Rightarrow> world \<Rightarrow> world" where
  "emit ev w = w\<lparr>trace := trace w @ [ev]\<rparr>"

text \<open>\<open>logging.error(f"An error occurred: {str(e)}")\<close> followed by \<open>print("Error: ", e)\<close>.\<close>

definition report :: "error \<Rightarrow> world \<Rightarrow> world" where
  "report e w = w\<lparr>error_log := error_log w @ [e], printed := printed w @ [e]\<rparr>"

subsection \<open>Query evaluation\<close>

definition column_names :: "table \<Rightarrow> string list" where
  "column_names t = map fst (columns t)"

definition find_table :: "database \<Rightarrow> string \<Rightarrow> string \<Rightarrow> table option" where
  "find_table db s n = find (\<lambda>t. tschema t = s \<and> tname t = n) (tables db)"

text \<open>The value a stored row has in a column (NULL when the row is too short).\<close>

definition field :: "table \<Rightarrow> row \<Rightarrow> string \<Rightarrow> val" where
  "field t r c = (case map_of (zip (column_names t) r) c of Some v \<Rightarrow> v | None \<Rightarrow> Null)"

text \<open>SQL's MAX: NULLs are skipped, and the maximum of nothing is NULL.\<close>

fun sql_max :: "val list \<Rightarrow> val" where
  "sql_max [] = Null"
| "sql_max (Null # vs) = sql_max vs"
| "sql_max (Num a # vs) = (case sql_max vs of Null \<Rightarrow> Num a | Num b \<Rightarrow> Num (max a b))"

text \<open>\<open>updated_date > w\<close> on a stored value: NULL is never greater.\<close>

fun newer_than :: "int \<Rightarrow> val \<Rightarrow> bool" where
  "newer_than w Null = False"
| "newer_than w (Num a) = (w < a)"

text \<open>
  \<open>information_schema.columns\<close>, filtered by \<open>table_name\<close>: one line per column of every
  table of that name, whatever its schema.
\<close>

definition information_schema_columns :: "database \<Rightarrow> string \<Rightarrow> (string \<times> string) list" where
  "information_schema_columns db n = concat (map columns (filter (\<lambda>t. tname t = n) (tables db)))"

definition missing_column :: "table \<Rightarrow> string list \<Rightarrow> string option" where
  "missing_column t cs = find (\<lambda>c. c \<notin> set (column_names t)) cs"

text \<open>
  The answer of the store to a query. A delta SELECT whose literal is the text \<open>None\<close>
  is refused: the text is not a value of the column's type.
\<close>

definition eval_query :: "database \<Rightarrow> statement \<Rightarrow> error + row list" where
  "eval_query db st =
     (case st of
        SelectCount s n \<Rightarrow>
          (case find_table db s n of
             None \<Rightarrow> Inl (UndefinedTable s n)
           | Some t \<Rightarrow> Inr [[Num (int (length (stored t)))]])
      | SelectMax s n \<Rightarrow>
          (case find_table db s n of
             None \<Rightarrow> Inl (UndefinedTable s n)
           | Some t \<Rightarrow>
               (case missing_column t [''updated_date''] of
                  Some c \<Rightarrow> Inl (UndefinedColumn c)
                | None \<Rightarrow> Inr [[sql_max (map (\<lambda>r. field t r ''updated_date'') (stored t))]]))
      | SelectFrom cs s n None \<Rightarrow>
          (case find_table db s n of
             None \<Rightarrow> Inl (UndefinedTable s n)
           | Some t \<Rightarrow>
               (case missing_column t cs of
                  Some c \<Rightarrow> Inl (UndefinedColumn c)
                | None \<Rightarrow> Inr (map (\<lambda>r. map (field t r) cs) (stored t))))
      | SelectFrom cs s n (Some v) \<Rightarrow>
          (case find_table db s n of
             None \<Rightarrow> Inl (UndefinedTable s n)
           | Some t \<Rightarrow>
               (case missing_column t (cs @ [''updated_date'']) of
                  Some c \<Rightarrow> Inl (UndefinedColumn c)
                | None \<Rightarrow>
                    (case v of
                       Null \<Rightarrow> Inl InvalidTextRepresentation
                     | Num w \<Rightarrow>
                         Inr (map (\<lambda>r. map (field t r) cs)
                               (filter (\<lambda>r. newer_than w (field t r ''updated_date'')) (stored t))))))
      | _ \<Rightarrow> Inl SyntaxError)"


text \<open>
  An INSERT with its parameters bound: the row the table receives has the given values in
  the named columns and NULL in the others.
\<close>

definition eval_insert :: "database \<Rightarrow> string \<Rightarrow> string \<Rightarrow> string list \<Rightarrow> row \<Rightarrow> error + row" where
  "eval_insert db s n cs r =
     (if cs = [] then Inl SyntaxError
      else case find_table db s n of
             None \<Rightarrow> Inl (UndefinedTable s n)
           | Some t \<Rightarrow>
               (case missing_column t cs of
                  Some c \<Rightarrow> Inl (UndefinedColumn c)
                | None \<Rightarrow>
                    if \<not> distinct cs then Inl DuplicateColumn
                    else Inr (map (\<lambda>c. case map_of (zip cs r) c of Some v \<Rightarrow> v | None \<Rightarrow> Null)
                               (column_names t))))"

fun append_rows :: "string \<Rightarrow> string \<Rightarrow> row list \<Rightarrow> table list \<Rightarrow> table list" where
  "append_rows s n rs [] = []"
| "append_rows s n rs (t # ts) =
     (if tschema t = s \<and> tname t = n then t\<lparr>stored := stored t @ rs\<rparr> # ts
      else t # append_rows s n rs ts)"

fun store_all :: "(string \<times> string \<times> row) list \<Rightarrow> table list \<Rightarrow> table list" where
  "store_all [] ts = ts"
| "store_all ((s, n, r) # ps) ts = store_all ps (append_rows s n [r] ts)"

section \<open>The database interface (psycopg2)\<close>

definition psycopg2_connect :: "conn_params \<Rightarrow> world \<Rightarrow> (error + connection) \<times> world" where
  "psycopg2_connect p w =
     (case map_of (servers w) p of
        None \<Rightarrow> (Inl OperationalError, w)
      | Some db \<Rightarrow>
          (Inr \<lparr>server = p, pending = []\<rparr>, emit (Connected p) (w\<lparr>sessions := p # sessions w\<rparr>)))"

text \<open>\<open>connection.close()\<close>: the session ends and the open transaction is dropped.\<close>

definition close :: "connection \<Rightarrow> world \<Rightarrow> world" where
  "close c w = emit (Closed (server c)) (w\<lparr>sessions := remove1 (server c) (sessions w)\<rparr>)"

text \<open>\<open>cursor.execute\<close> of a query; the result set is held by the cursor.\<close>

definition execute :: "connection \<Rightarrow> statement \<Rightarrow> world \<Rightarrow> (error + row list) \<times> world" where
  "execute c st w =
     (let w1 = emit (Executed (server c) st) w in
      case map_of (servers w1) (server c) of
        None \<Rightarrow> (Inl OperationalError, w1)
      | Some db \<Rightarrow> (if rejects db st then Inl (DatabaseError st) else eval_query db st, w1))"

text \<open>\<open>cursor.fetchone()[0]\<close>\<close>

definition fetchone_0 :: "row list \<Rightarrow> error + val" where
  "fetchone_0 res =
     (case res of
        [] \<Rightarrow> Inl TypeError
      | r # _ \<Rightarrow> (case r of [] \<Rightarrow> Inl IndexError | v # _ \<Rightarrow> Inr v))"

text \<open>
  The INSERT template: target schema, table name and the column list; it has one
  \<open>%s\<close> for each column. Binding a tuple of another length fails in Python.
\<close>

type_synonym insert_template = "string \<times> string \<times> string list"

definition bind_params :: "string list \<Rightarrow> row \<Rightarrow> error + row" where
  "bind_params cs r =
     (if length r < length cs then Inl IndexError
      else if length cs < length r then Inl TypeError
      else Inr r)"

definition execute_insert :: "insert_template \<Rightarrow> row \<Rightarrow> connection \<Rightarrow> world \<Rightarrow> error + connection" where
  "execute_insert tmpl r c w =
     (case tmpl of (s, n, cs) \<Rightarrow>
        (case bind_params cs r of
           Inl e \<Rightarrow> Inl e
         | Inr ps \<Rightarrow>
             (case map_of (servers w) (server c) of
                None \<Rightarrow> Inl OperationalError
              | Some db \<Rightarrow>
                  if rejects db (InsertInto s n cs ps) then Inl (DatabaseError (InsertInto s n cs ps))
                  else (case eval_insert db s n cs ps of
                          Inl e \<Rightarrow> Inl e
                        | Inr full \<Rightarrow> Inr (c\<lparr>pending := pending c @ [(s, n, full)]\<rparr>)))))"

text \<open>\<open>cursor.executemany\<close>: the statement is run for each row in turn, up to the first failure.\<close>

fun insert_rows :: "insert_template \<Rightarrow> row list \<Rightarrow> connection \<Rightarrow> world \<Rightarrow> error + connection" where
  "insert_rows tmpl [] c w = Inr c"
| "insert_rows tmpl (r # rs) c w =
     (case execute_insert tmpl r c w of
        Inl e \<Rightarrow> Inl e
      | Inr c' \<Rightarrow> insert_rows tmpl rs c' w)"

definition executemany :: "insert_template \<Rightarrow> row list \<Rightarrow> connection \<Rightarrow> world \<Rightarrow> (error + connection) \<times> world" where
  "executemany tmpl rs c w = (insert_rows tmpl rs c w, emit (ExecutedMany (server c) rs) w)"

text \<open>\<open>connection.commit()\<close>: the rows of the open transaction become part of the store.\<close>

definition commit :: "connection \<Rightarrow> world \<Rightarrow> (error + connection) \<times> world" where
  "commit c w =
     (let w1 = emit (Committed (server c)) w in
      case map_of (servers w1) (server c) of
        None \<Rightarrow> (Inl OperationalError, w1)
      | Some db \<Rightarrow>
          if rejects db CommitTx then (Inl (DatabaseError CommitTx), w1)
          else (Inr (c\<lparr>pending := []\<rparr>),
                w1\<lparr>servers := AList.update (server c)
                                 (db\<lparr>tables := store_all (pending c) (tables db)\<rparr>) (servers w1)\<rparr>))"

section \<open>The program (main.py)\<close>

subsection \<open>p_read_config\<close>

definition safe_load_file :: "string \<Rightarrow> world \<Rightarrow> error + yaml_value" where
  "safe_load_file i_yaml_file w =
     (case map_of (files w) i_yaml_file of
        None \<Rightarrow> Inl (FileNotFoundError i_yaml_file)
      | Some Unparsable \<Rightarrow> Inl YAMLError
      | Some (Yaml o_db_config) \<Rightarrow> Inr o_db_config)"

definition p_read_config :: "string \<Rightarrow> world \<Rightarrow> (error + yaml_value) \<times> world" where
  "p_read_config i_yaml_file w =
     (case safe_load_file i_yaml_file w of
        Inr o_db_config \<Rightarrow> (Inr o_db_config, w)
      | Inl e \<Rightarrow> (Inl e, report e w))"

subsection \<open>p_connect_to_source, p_connect_to_target\<close>

text \<open>\<open>l_db_config[k]\<close>\<close>

definition subscript :: "yaml_value \<Rightarrow> string \<Rightarrow> error + string" where
  "subscript l_db_config k =
     (case l_db_config of
        YOther \<Rightarrow> Inl TypeError
      | YMapping m \<Rightarrow> (case map_of m k of None \<Rightarrow> Inl (KeyError k) | Some v \<Rightarrow> Inr v))"

text \<open>The arguments of \<open>psycopg2.connect\<close>: the five keys are read in the order written.\<close>

definition connect_args :: "yaml_value \<Rightarrow> error + conn_params" where
  "connect_args l_db_config =
     (case subscript l_db_config ''host'' of
        Inl e \<Rightarrow> Inl e
      | Inr h \<Rightarrow>
     (case subscript l_db_config ''database'' of
        Inl e \<Rightarrow> Inl e
      | Inr d \<Rightarrow>
     (case subscript l_db_config ''user'' of
        Inl e \<Rightarrow> Inl e
      | Inr u \<Rightarrow>
     (case subscript l_db_config ''password'' of
        Inl e \<Rightarrow> Inl e
      | Inr pw \<Rightarrow>
     (case subscript l_db_config ''port'' of
        Inl e \<Rightarrow> Inl e
      | Inr pt \<Rightarrow> Inr (h, d, u, pw, pt))))))"

text \<open>The body of the \<open>try\<close>.\<close>

definition connect_with :: "yaml_value \<Rightarrow> world \<Rightarrow> (error + connection) \<times> world" where
  "connect_with l_db_config w =
     (case connect_args l_db_config of
        Inl e \<Rightarrow> (Inl e, w)
      | Inr p \<Rightarrow> psycopg2_connect p w)"

text \<open>
  \<open>p_connect_to_source\<close> and \<open>p_connect_to_target\<close> are the same text but for the path of
  the file. The file is read outside the \<open>try\<close>, so an error of \<open>p_read_config\<close>
  goes through without a second report.
\<close>

definition connect_from :: "string \<Rightarrow> world \<Rightarrow> (error + connection) \<times> world" where
  "connect_from path w =
     (case p_read_config path w of
        (Inl e, w1) \<Rightarrow> (Inl e, w1)
      | (Inr l_db_config, w1) \<Rightarrow>
          (case connect_with l_db_config w1 of
             (Inr o_connection, w2) \<Rightarrow> (Inr o_connection, w2)
           | (Inl e, w2) \<Rightarrow> (Inl e, report e w2)))"

definition p_connect_to_source :: "world \<Rightarrow> (error + connection) \<times> world" where
  "p_connect_to_source w = connect_from ''config/source_db.yml'' w"

definition p_connect_to_target :: "world \<Rightarrow> (error + connection) \<times> world" where
  "p_connect_to_target w = connect_from ''config/target_db.yml'' w"

subsection \<open>p_get_table_definition\<close>

definition catalog_query :: "connection \<Rightarrow> string \<Rightarrow> world \<Rightarrow> (error + (string \<times> string) list) \<times> world" where
  "catalog_query i_connection i_table_name w =
     (let st = SelectColumns i_table_name;
          w1 = emit (Executed (server i_connection) st) w in
      case map_of (servers w1) (server i_connection) of
        None \<Rightarrow> (Inl OperationalError, w1)
      | Some db \<Rightarrow>
          (if rejects db st then Inl (DatabaseError st)
           else Inr (information_schema_columns db i_table_name), w1))"

definition p_get_table_definition :: "connection \<Rightarrow> string \<Rightarrow> world \<Rightarrow> (error + (string \<times> string) list) \<times> world" where
  "p_get_table_definition i_connection i_table_name w =
     (case catalog_query i_connection i_table_name w of
        (Inr o_table_definition, w1) \<Rightarrow> (Inr o_table_definition, w1)
      | (Inl e, w1) \<Rightarrow> (Inl e, report e w1))"

subsection \<open>p_move_data_for_table\<close>

text \<open>
  Lines 136 to 152: the row count of the target decides between the full and the delta
  load, and the source cursor runs the SELECT. The result is what the source cursor holds.
\<close>

definition select_source :: "connection \<Rightarrow> connection \<Rightarrow> string \<Rightarrow> string \<Rightarrow> string \<Rightarrow> string list \<Rightarrow> world \<Rightarrow> (error + row list) \<times> world" where
  "select_source l_connection_source l_connection_target i_table_name i_source_schema i_target_schema l_target_columns w =
     (case execute l_connection_target (SelectCount i_target_schema i_table_name) w of
        (Inl e, w1) \<Rightarrow> (Inl e, w1)
      | (Inr res, w1) \<Rightarrow>
          (case fetchone_0 res of
             Inl e \<Rightarrow> (Inl e, w1)
           | Inr l_target_row_count \<Rightarrow>
               if l_target_row_count = Num 0 then
                 execute l_connection_source (SelectFrom l_target_columns i_source_schema i_table_name None) w1
               else
                 (case execute l_connection_target (SelectMax i_target_schema i_table_name) w1 of
                    (Inl e, w2) \<Rightarrow> (Inl e, w2)
                  | (Inr res2, w2) \<Rightarrow>
                      (case fetchone_0 res2 of
                         Inl e \<Rightarrow> (Inl e, w2)
                       | Inr l_max_update_date \<Rightarrow>
                           execute l_connection_source
                             (SelectFrom l_target_columns i_source_schema i_table_name (Some l_max_update_date)) w2))))"

text \<open>
  Lines 154 to 162, the \<open>while True\<close> loop. \<open>buf\<close> is what the source cursor still holds;
  \<open>fetchmany(size=1000)\<close> takes its first 1000 rows.
\<close>

function transfer_loop :: "insert_template \<Rightarrow> row list \<Rightarrow> connection \<Rightarrow> world \<Rightarrow> (error + unit) \<times> world" where
  "transfer_loop insert_query_template buf l_connection_target w =
     (let rows = take 1000 buf;
          w1 = emit (Fetched rows) w in
      if rows = [] then (Inr (), w1)
      else
        (case executemany insert_query_template rows l_connection_target w1 of
           (Inl e, w2) \<Rightarrow> (Inl e, w2)
         | (Inr c2, w2) \<Rightarrow>
             (case commit c2 w2 of
                (Inl e, w3) \<Rightarrow> (Inl e, w3)
              | (Inr c3, w3) \<Rightarrow> transfer_loop insert_query_template (drop 1000 buf) c3 w3)))"
  by pat_completeness auto
termination
  by (relation "measure (\<lambda>(t, buf, c, w). length buf)") auto

text \<open>
  The body of the \<open>try\<close> up to the loop (lines 122 to 152). When it raises, the result
  holds the exception and the two local variables \<open>l_connection_source\<close> and
  \<open>l_connection_target\<close> as they are at that point (\<open>None\<close> until the connection has
  been opened). Otherwise it holds both connections, the INSERT template and the rows in the
  source cursor.
\<close>

type_synonym handles = "connection option \<times> connection option"

definition open_and_select :: "string \<Rightarrow> string \<Rightarrow> string \<Rightarrow> world \<Rightarrow> (error \<times> handles + connection \<times> connection \<times> insert_template \<times> row list) \<times> world" where
  "open_and_select i_table_name i_source_schema i_target_schema w =
     (case p_connect_to_source w of
        (Inl e, w1) \<Rightarrow> (Inl (e, None, None), w1)
      | (Inr l_connection_source, w1) \<Rightarrow>
     (case p_get_table_definition l_connection_source i_table_name w1 of
        (Inl e, w2) \<Rightarrow> (Inl (e, Some l_connection_source, None), w2)
      | (Inr l_source_table_definition, w2) \<Rightarrow>
     (let l_source_columns = map fst l_source_table_definition in
      case p_connect_to_target w2 of
        (Inl e, w3) \<Rightarrow> (Inl (e, Some l_connection_source, None), w3)
      | (Inr l_connection_target, w3) \<Rightarrow>
     (case p_get_table_definition l_connection_target i_table_name w3 of
        (Inl e, w4) \<Rightarrow> (Inl (e, Some l_connection_source, Some l_connection_target), w4)
      | (Inr l_target_table_definition, w4) \<Rightarrow>
     (let l_target_columns = map fst l_target_table_definition;
          insert_query_template = (i_target_schema, i_table_name, l_source_columns) in
      case select_source l_connection_source l_connection_target i_table_name
             i_source_schema i_target_schema l_target_columns w4 of
        (Inl e, w5) \<Rightarrow> (Inl (e, Some l_connection_source, Some l_connection_target), w5)
      | (Inr buf, w5) \<Rightarrow>
          (Inr (l_connection_source, l_connection_target, insert_query_template, buf), w5))))))"

text \<open>The whole body of the \<open>try\<close> (lines 122 to 162).\<close>

definition move_body :: "string \<Rightarrow> string \<Rightarrow> string \<Rightarrow> world \<Rightarrow> (error + unit) \<times> handles \<times> world" where
  "move_body i_table_name i_source_schema i_target_schema w =
     (case open_and_select i_table_name i_source_schema i_target_schema w of
        (Inl (e, hs), w5) \<Rightarrow> (Inl e, hs, w5)
      | (Inr (l_connection_source, l_connection_target, insert_query_template, buf), w5) \<Rightarrow>
          (case transfer_loop insert_query_template buf l_connection_target w5 of
             (res, w6) \<Rightarrow> (res, (Some l_connection_source, Some l_connection_target), w6)))"

text \<open>
  The \<open>except\<close> clause reports the exception and raises it again; then the
  \<open>finally\<close> block runs: \<open>l_connection_source.close()\<close>, then
  \<open>l_connection_target.close()\<close>. Calling \<open>close\<close> on \<open>None\<close> raises AttributeError,
  which leaves the block at once and replaces the exception that was on its way.
\<close>

definition finally_close :: "error + unit \<Rightarrow> handles \<Rightarrow> world \<Rightarrow> (error + unit) \<times> world" where
  "finally_close res hs w =
     (case hs of (l_connection_source, l_connection_target) \<Rightarrow>
        (case l_connection_source of
           None \<Rightarrow> (Inl AttributeError, w)
         | Some src \<Rightarrow>
             (let w1 = close src w in
              case l_connection_target of
                None \<Rightarrow> (Inl AttributeError, w1)
              | Some tgt \<Rightarrow> (res, close tgt w1))))"

definition p_move_data_for_table :: "string \<Rightarrow> string \<Rightarrow> string \<Rightarrow> world \<Rightarrow> (error + unit) \<times> world" where
  "p_move_data_for_table i_table_name i_source_schema i_target_schema w =
     (case move_body i_table_name i_source_schema i_target_schema w of
        (res, hs, w1) \<Rightarrow>
          finally_close res hs (case res of Inl e \<Rightarrow> report e w1 | Inr _ \<Rightarrow> w1))"

section \<open>Notions for the properties\<close>

text \<open>
  What the store answers to one INSERT of the template with the row bound: an error, or
  the row as the table receives it.
\<close>

definition insert_result :: "database \<Rightarrow> insert_template \<Rightarrow> row \<Rightarrow> error + row" where
  "insert_result db tmpl r =
     (case tmpl of (s, n, cs) \<Rightarrow>
        (case bind_params cs r of
           Inl e \<Rightarrow> Inl e
         | Inr ps \<Rightarrow>
             if rejects db (InsertInto s n cs ps) then Inl (DatabaseError (InsertInto s n cs ps))
             else eval_insert db s n cs ps))"

definition accepted :: "database \<Rightarrow> insert_template \<Rightarrow> row \<Rightarrow> bool" where
  "accepted db tmpl r = (case insert_result db tmpl r of Inl e \<Rightarrow> False | Inr f \<Rightarrow> True)"

definition landed :: "database \<Rightarrow> insert_template \<Rightarrow> row \<Rightarrow> row" where
  "landed db tmpl r = (case insert_result db tmpl r of Inl e \<Rightarrow> [] | Inr f \<Rightarrow> f)"

function batches :: "'a list \<Rightarrow> 'a list list" where
  "batches xs = (if xs = [] then [] else take 1000 xs # batches (drop 1000 xs))"
  by pat_completeness auto
termination
  by (relation "measure length") auto

text \<open>
  A store opens for the configuration file at \<open>path\<close>: the file parses, holds the five
  keys, and the store \<open>db\<close> accepts a connection with these parameters.
\<close>

definition opens :: "string \<Rightarrow> world \<Rightarrow> conn_params \<Rightarrow> database \<Rightarrow> bool" where
  "opens path w p db =
     (case safe_load_file path w of
        Inl e \<Rightarrow> False
      | Inr l_db_config \<Rightarrow> connect_args l_db_config = Inr p \<and> map_of (servers w) p = Some db)"

fun statements :: "event list \<Rightarrow> (conn_params \<times> statement) list" where
  "statements [] = []"
| "statements (Executed p st # evs) = (p, st) # statements evs"
| "statements (ev # evs) = statements evs"

text \<open>The world when both connections are open and both catalogs have been read.\<close>

definition introspected :: "world \<Rightarrow> conn_params \<Rightarrow> conn_params \<Rightarrow> string \<Rightarrow> world" where
  "introspected w sp tp n =
     emit (Executed tp (SelectColumns n)) (emit (Connected tp)
       ((emit (Executed sp (SelectColumns n)) (emit (Connected sp) (w\<lparr>sessions := sp # sessions w\<rparr>)))
          \<lparr>sessions := tp # sp # sessions w\<rparr>))"

section \<open>Example worlds\<close>

definition src_params :: conn_params where
  "src_params = (''src-host'', ''shop'', ''etl'', ''secret'', ''5432'')"

definition tgt_params :: conn_params where
  "tgt_params = (''tgt-host'', ''warehouse'', ''etl'', ''secret'', ''5432'')"

definition config_for :: "conn_params \<Rightarrow> file_content" where
  "config_for p =
     (case p of (h, d, u, pw, pt) \<Rightarrow>
        Yaml (YMapping [(''database'', d), (''user'', u), (''password'', pw), (''host'', h), (''port'', pt)]))"

definition plain_store :: "table list \<Rightarrow> database" where
  "plain_store ts = \<lparr>tables = ts, rejects = (\<lambda>st. False)\<rparr>"

definition two_stores :: "database \<Rightarrow> database \<Rightarrow> world" where
  "two_stores sdb tdb =
     \<lparr>files = [(''config/source_db.yml'', config_for src_params),
               (''config/target_db.yml'', config_for tgt_params)],
      servers = [(src_params, sdb), (tgt_params, tdb)],
      sessions = [], error_log = [], printed = [], trace = []\<rparr>"

definition product_columns :: "(string \<times> string) list" where
  "product_columns = [(''id'', ''integer''), (''stock'', ''integer''), (''updated_date'', ''timestamp'')]"

definition core_products :: "row list \<Rightarrow> table" where
  "core_products rs = \<lparr>tschema = ''core'', tname = ''products'', columns = product_columns, stored = rs\<rparr>"

definition dwh_products :: "row list \<Rightarrow> table" where
  "dwh_products rs = \<lparr>tschema = ''dwh'', tname = ''products'', columns = product_columns, stored = rs\<rparr>"

definition archive_products :: table where
  "archive_products = \<lparr>tschema = ''archive'', tname = ''products'',
     columns = [(''sku'', ''text''), (''price'', ''numeric'')], stored = []\<rparr>"

text \<open>The same table with \<open>stock\<close> and \<open>id\<close> in the other catalog order.\<close>

definition dwh_products_reordered :: "row list \<Rightarrow> table" where
  "dwh_products_reordered rs = \<lparr>tschema = ''dwh'', tname = ''products'',
     columns = [(''stock'', ''integer''), (''id'', ''integer''), (''updated_date'', ''timestamp'')],
     stored = rs\<rparr>"

text \<open>A table with two timestamps, listed in one order by the source and in the other by the target.\<close>

definition core_dated :: "row list \<Rightarrow> table" where
  "core_dated rs = \<lparr>tschema = ''core'', tname = ''products'',
     columns = [(''id'', ''integer''), (''created_date'', ''timestamp''), (''updated_date'', ''timestamp'')],
     stored = rs\<rparr>"

definition dwh_dated :: "row list \<Rightarrow> table" where
  "dwh_dated rs = \<lparr>tschema = ''dwh'', tname = ''products'',
     columns = [(''id'', ''integer''), (''updated_date'', ''timestamp''), (''created_date'', ''timestamp'')],
     stored = rs\<rparr>"

definition product_names :: "string list" where
  "product_names = [''id'', ''stock'', ''updated_date'']"

definition good_row :: row where
  "good_row = [Num 1, Num 50, Num 10]"

definition bad_row :: row where
  "bad_row = [Num 2, Null, Num 20]"

text \<open>A target store that refuses the INSERT of \<open>bad_row\<close> (say, \<open>stock\<close> is NOT NULL).\<close>

definition strict_store :: "table list \<Rightarrow> database" where
  "strict_store ts =
     \<lparr>tables = ts, rejects = (\<lambda>st. st = InsertInto ''dwh'' ''products'' product_names bad_row)\<rparr>"

definition target_tables :: "world \<Rightarrow> table list" where
  "target_tables w = (case map_of (servers w) tgt_params of None \<Rightarrow> [] | Some db \<Rightarrow> tables db)"

text \<open>Worlds for the cases studied below.\<close>

definition source_unreachable :: world where
  "source_unreachable =
     (two_stores (plain_store [core_products [good_row]]) (plain_store [dwh_products []]))
       \<lparr>servers := [(tgt_params, plain_store [dwh_products []])]\<rparr>"

definition target_config_missing :: world where
  "target_config_missing =
     (two_stores (plain_store [core_products [good_row]]) (plain_store [dwh_products []]))
       \<lparr>files := [(''config/source_db.yml'', config_for src_params)]\<rparr>"

definition reordered_world :: world where
  "reordered_world =
     two_stores (plain_store [core_products [[Num 1, Num 50, Num 10]]])
                (plain_store [dwh_products_reordered []])"

definition dated_world :: world where
  "dated_world =
     two_stores (plain_store [core_dated [[Num 1, Num 5, Num 20], [Num 2, Num 6, Num 30]]])
                (plain_store [dwh_dated [[Num 0, Num 10, Num 1]]])"

definition source_tables :: "world \<Rightarrow> table list" where
  "source_tables w = (case map_of (servers w) src_params of None \<Rightarrow> [] | Some db \<Rightarrow> tables db)"

lemmas world_defs = src_params_def tgt_params_def config_for_def plain_store_def two_stores_def
  product_columns_def core_products_def dwh_products_def archive_products_def target_tables_def
  dwh_products_reordered_def core_dated_def dwh_dated_def product_names_def good_row_def bad_row_def
  strict_store_def source_unreachable_def target_config_missing_def reordered_world_def
  dated_world_def source_tables_def

lemmas insert_defs = accepted_def insert_result_def bind_params_def eval_insert_def landed_def

lemmas model_defs = opens_def safe_load_file_def connect_args_def subscript_def find_table_def
  column_names_def information_schema_columns_def field_def missing_column_def

section \<open>Properties\<close>

declare transfer_loop.simps [simp del]

declare batches.simps [simp del]

subsection \<open>Stores and inserts\<close>

lemma trace_emit [simp]: "trace (emit ev w) = trace w @ [ev]"
  by (simp add: emit_def)

lemma servers_emit [simp]: "servers (emit ev w) = servers w"
  by (simp add: emit_def)

lemma find_append_rows:
  "map_option columns (find (\<lambda>t. tschema t = s \<and> tname t = n) (append_rows s' n' rs ts)) =
   map_option columns (find (\<lambda>t. tschema t = s \<and> tname t = n) ts)"
  by (induction ts) auto

lemma find_store_all:
  "map_option columns (find (\<lambda>t. tschema t = s \<and> tname t = n) (store_all ps ts)) =
   map_option columns (find (\<lambda>t. tschema t = s \<and> tname t = n) ts)"
  by (induction ps ts rule: store_all.induct) (auto simp: find_append_rows)

lemma eval_insert_cong:
  assumes "map_option columns (find_table db' s n) = map_option columns (find_table db s n)"
  shows "eval_insert db' s n cs r = eval_insert db s n cs r"
proof (cases "find_table db s n")
  case None
  with assms have "find_table db' s n = None" by simp
  with None show ?thesis by (simp add: eval_insert_def)
next
  case (Some t)
  with assms obtain t' where t': "find_table db' s n = Some t'" "columns t' = columns t"
    by (cases "find_table db' s n") auto
  then have "column_names t' = column_names t"
    by (simp add: column_names_def)
  with Some t' show ?thesis
    by (simp add: eval_insert_def missing_column_def split: option.splits)
qed

lemma insert_result_commit:
  "insert_result (db\<lparr>tables := store_all ps (tables db)\<rparr>) tmpl r = insert_result db tmpl r"
proof -
  obtain s n cs where tmpl: "tmpl = (s, n, cs)" by (cases tmpl) auto
  have "eval_insert (db\<lparr>tables := store_all ps (tables db)\<rparr>) s n cs q = eval_insert db s n cs q" for q
    by (rule eval_insert_cong) (simp add: find_table_def find_store_all)
  then show ?thesis by (simp add: insert_result_def tmpl split: sum.splits)
qed

lemma execute_insert_on:
  assumes "map_of (servers w) (server c) = Some db"
  shows "execute_insert (s, n, cs) r c w =
           (case insert_result db (s, n, cs) r of
              Inl e \<Rightarrow> Inl e
            | Inr f \<Rightarrow> Inr (c\<lparr>pending := pending c @ [(s, n, f)]\<rparr>))"
  using assms by (simp add: execute_insert_def insert_result_def split: sum.splits)

lemma insert_rows_accepted:
  assumes "map_of (servers w) (server c) = Some db"
    and "\<forall>r \<in> set rs. accepted db (s, n, cs) r"
  shows "insert_rows (s, n, cs) rs c w =
           Inr (c\<lparr>pending := pending c @ map (\<lambda>r. (s, n, landed db (s, n, cs) r)) rs\<rparr>)"
  using assms
proof (induction rs arbitrary: c)
  case Nil
  then show ?case by simp
next
  case (Cons r rs)
  from Cons.prems obtain f where f: "insert_result db (s, n, cs) r = Inr f"
    by (auto simp: accepted_def split: sum.splits)
  let ?c = "c\<lparr>pending := pending c @ [(s, n, f)]\<rparr>"
  have "insert_rows (s, n, cs) rs ?c w =
          Inr (?c\<lparr>pending := pending ?c @ map (\<lambda>r. (s, n, landed db (s, n, cs) r)) rs\<rparr>)"
    using Cons.prems by (intro Cons.IH) auto
  then show ?case
    using Cons.prems f by (simp add: execute_insert_on landed_def)
qed

lemma insert_rows_refused:
  assumes "map_of (servers w) (server c) = Some db"
    and "\<forall>r \<in> set good. accepted db (s, n, cs) r"
    and "insert_result db (s, n, cs) bad = Inl e"
  shows "insert_rows (s, n, cs) (good @ bad # later) c w = Inl e"
  using assms
proof (induction good arbitrary: c)
  case Nil
  then show ?case by (simp add: execute_insert_on)
next
  case (Cons r good)
  from Cons.prems obtain f where f: "insert_result db (s, n, cs) r = Inr f"
    by (auto simp: accepted_def split: sum.splits)
  have "insert_rows (s, n, cs) (good @ bad # later) (c\<lparr>pending := pending c @ [(s, n, f)]\<rparr>) w = Inl e"
    using Cons.prems by (intro Cons.IH) auto
  then show ?case using Cons.prems f by (simp add: execute_insert_on)
qed

lemma append_rows_twice:
  "append_rows s n rs' (append_rows s n rs ts) = append_rows s n (rs @ rs') ts"
  by (induction ts) auto

lemma store_all_same_table:
  "store_all (map (\<lambda>f. (s, n, f)) fs) ts = append_rows s n fs ts"
proof (induction fs arbitrary: ts)
  case Nil
  show ?case by (induction ts) auto
next
  case (Cons f fs)
  then show ?case by (simp add: append_rows_twice)
qed

lemma append_rows_Nil [simp]: "append_rows s n [] ts = ts"
  by (induction ts) auto

lemma commit_on:
  assumes "map_of (servers w) (server c) = Some db" and "\<not> rejects db CommitTx"
  shows "commit c w =
           (Inr (c\<lparr>pending := []\<rparr>),
            (emit (Committed (server c)) w)\<lparr>servers :=
               AList.update (server c) (db\<lparr>tables := store_all (pending c) (tables db)\<rparr>) (servers w)\<rparr>)"
  using assms by (simp add: commit_def Let_def)

lemma loop_end: "transfer_loop tmpl [] c w = (Inr (), emit (Fetched []) w)"
  by (simp add: transfer_loop.simps)

lemma loop_step:
  assumes db: "map_of (servers w) (server c) = Some db"
    and ok: "\<not> rejects db CommitTx"
    and ne: "buf \<noteq> []"
    and acc: "\<forall>r \<in> set (take 1000 buf). accepted db (s, n, cs) r"
  shows "transfer_loop (s, n, cs) buf c w =
           transfer_loop (s, n, cs) (drop 1000 buf) (c\<lparr>pending := []\<rparr>)
             ((emit (Committed (server c)) (emit (ExecutedMany (server c) (take 1000 buf)) (emit (Fetched (take 1000 buf)) w)))
                \<lparr>servers := AList.update (server c)
                    (db\<lparr>tables := store_all (pending c @ map (\<lambda>r. (s, n, landed db (s, n, cs) r)) (take 1000 buf)) (tables db)\<rparr>)
                    (servers w)\<rparr>)"
proof -
  let ?b = "take 1000 buf"
  let ?w1 = "emit (Fetched ?b) w"
  let ?c2 = "c\<lparr>pending := pending c @ map (\<lambda>r. (s, n, landed db (s, n, cs) r)) ?b\<rparr>"
  have db1: "map_of (servers ?w1) (server c) = Some db" using db by simp
  have ins: "executemany (s, n, cs) ?b c ?w1 = (Inr ?c2, emit (ExecutedMany (server c) ?b) ?w1)"
    using insert_rows_accepted [OF db1 acc] by (simp add: executemany_def)
  have com: "commit ?c2 (emit (ExecutedMany (server c) ?b) ?w1) =
               (Inr (?c2\<lparr>pending := []\<rparr>),
                (emit (Committed (server ?c2)) (emit (ExecutedMany (server c) ?b) ?w1))\<lparr>servers :=
                   AList.update (server ?c2) (db\<lparr>tables := store_all (pending ?c2) (tables db)\<rparr>)
                     (servers (emit (ExecutedMany (server c) ?b) ?w1))\<rparr>)"
    by (rule commit_on) (use db ok in simp_all)
  show ?thesis
    by (subst transfer_loop.simps) (simp add: Let_def ne ins com)
qed

lemma loop_refused:
  assumes db: "map_of (servers w) (server c) = Some db"
    and split: "take 1000 buf = good @ bad # later"
    and acc: "\<forall>r \<in> set good. accepted db (s, n, cs) r"
    and bad: "insert_result db (s, n, cs) bad = Inl e"
  shows "transfer_loop (s, n, cs) buf c w =
           (Inl e, emit (ExecutedMany (server c) (take 1000 buf)) (emit (Fetched (take 1000 buf)) w))"
proof -
  let ?b = "take 1000 buf"
  let ?w1 = "emit (Fetched ?b) w"
  have db1: "map_of (servers ?w1) (server c) = Some db" using db by simp
  have "insert_rows (s, n, cs) (good @ bad # later) c ?w1 = Inl e"
    by (rule insert_rows_refused [OF db1 acc bad])
  then have ins: "executemany (s, n, cs) ?b c ?w1 = (Inl e, emit (ExecutedMany (server c) ?b) ?w1)"
    by (simp add: executemany_def split)
  have ne: "buf \<noteq> []" using split by auto
  show ?thesis
    by (subst transfer_loop.simps) (simp add: Let_def ne ins)
qed

lemma batches_props: "concat (batches xs) = xs \<and> (\<forall>b \<in> set (batches xs). b \<noteq> [] \<and> length b \<le> 1000)"
proof (induction xs rule: batches.induct)
  case (1 xs)
  show ?case
  proof (cases "xs = []")
    case True
    then show ?thesis by (simp add: batches.simps)
  next
    case False
    with 1 have ih: "concat (batches (drop 1000 xs)) = drop 1000 xs"
      "\<forall>b \<in> set (batches (drop 1000 xs)). b \<noteq> [] \<and> length b \<le> 1000" by auto
    have "batches xs = take 1000 xs # batches (drop 1000 xs)"
      using False by (subst batches.simps) simp
    moreover have "take 1000 xs \<noteq> []" using False by (cases xs) auto
    ultimately show ?thesis using ih by simp
  qed
qed

lemma batches_2500:
  assumes "length xs = 2500"
  shows "map length (batches xs) = [1000, 1000, 500]"
proof -
  have 1: "xs \<noteq> []" using assms by auto
  have 2: "drop 1000 xs \<noteq> []" using assms by auto
  have 3: "drop 1000 (drop 1000 xs) \<noteq> []" using assms by auto
  have 4: "drop 1000 (drop 1000 (drop 1000 xs)) = []" using assms by auto
  have "batches xs = [take 1000 xs, take 1000 (drop 1000 xs), take 1000 (drop 1000 (drop 1000 xs))]"
    using 1 2 3 4
    by (subst batches.simps, simp, subst batches.simps, simp, subst batches.simps, simp, subst batches.simps, simp)
  then show ?thesis using assms by simp
qed

lemma loop_accepts:
  assumes "map_of (servers w) (server c) = Some db"
    and "\<not> rejects db CommitTx"
    and "\<forall>r \<in> set buf. accepted db (s, n, cs) r"
  shows "fst (transfer_loop (s, n, cs) buf c w) = Inr () \<and>
         trace (snd (transfer_loop (s, n, cs) buf c w)) =
           trace w @ concat (map (\<lambda>b. [Fetched b, ExecutedMany (server c) b, Committed (server c)]) (batches buf))
             @ [Fetched []]"
  using assms
proof (induction buf arbitrary: c w db rule: batches.induct)
  case (1 buf)
  show ?case
  proof (cases "buf = []")
    case True
    then show ?thesis by (simp add: loop_end batches.simps)
  next
    case False
    let ?b = "take 1000 buf"
    let ?db = "db\<lparr>tables := store_all (pending c @ map (\<lambda>r. (s, n, landed db (s, n, cs) r)) ?b) (tables db)\<rparr>"
    let ?c = "c\<lparr>pending := []\<rparr>"
    let ?w = "(emit (Committed (server c)) (emit (ExecutedMany (server c) ?b) (emit (Fetched ?b) w)))
                \<lparr>servers := AList.update (server c) ?db (servers w)\<rparr>"
    have acc: "\<forall>r \<in> set ?b. accepted db (s, n, cs) r"
      using "1.prems"(3) by (meson in_set_takeD)
    have step: "transfer_loop (s, n, cs) buf c w = transfer_loop (s, n, cs) (drop 1000 buf) ?c ?w"
      by (rule loop_step [OF "1.prems"(1,2) False acc])
    have db': "map_of (servers ?w) (server ?c) = Some ?db"
      by (simp add: update_conv')
    have ok': "\<not> rejects ?db CommitTx" using "1.prems"(2) by simp
    have acc': "\<forall>r \<in> set (drop 1000 buf). accepted ?db (s, n, cs) r"
      using "1.prems"(3) by (auto simp: accepted_def insert_result_commit dest: in_set_dropD)
    have ih: "fst (transfer_loop (s, n, cs) (drop 1000 buf) ?c ?w) = Inr () \<and>
         trace (snd (transfer_loop (s, n, cs) (drop 1000 buf) ?c ?w)) =
           trace ?w @ concat (map (\<lambda>b. [Fetched b, ExecutedMany (server ?c) b, Committed (server ?c)]) (batches (drop 1000 buf)))
             @ [Fetched []]"
      by (rule "1.IH" [OF False db' ok' acc'])
    have bs: "batches buf = ?b # batches (drop 1000 buf)"
      using False by (subst batches.simps) simp
    show ?thesis using ih by (simp add: step bs)
  qed
qed

lemma landed_commit:
  "landed (db\<lparr>tables := store_all ps (tables db)\<rparr>) tmpl r = landed db tmpl r"
  by (simp add: landed_def insert_result_commit)

lemma landed_commit_fun:
  "landed (db\<lparr>tables := store_all ps (tables db)\<rparr>) tmpl = landed db tmpl"
  by (rule ext) (rule landed_commit)

lemma store_all_one_table:
  "store_all (map (\<lambda>r. (s, n, g r)) rs) ts = append_rows s n (map g rs) ts"
  using store_all_same_table [of s n "map g rs" ts] by (simp add: comp_def)

lemma accepted_commit:
  "accepted (db\<lparr>tables := store_all ps (tables db)\<rparr>) tmpl r = accepted db tmpl r"
  by (simp add: accepted_def insert_result_commit)

lemma loop_stops_at_refusal:
  assumes "map_of (servers w) (server c) = Some db"
    and "\<not> rejects db CommitTx"
    and "pending c = []"
    and "buf = good @ bad # later"
    and "\<forall>r \<in> set good. accepted db (s, n, cs) r"
    and "insert_result db (s, n, cs) bad = Inl e"
  shows "fst (transfer_loop (s, n, cs) buf c w) = Inl e \<and>
         map_of (servers (snd (transfer_loop (s, n, cs) buf c w))) (server c) =
           Some (db\<lparr>tables := append_rows s n
                  (map (landed db (s, n, cs)) (take (1000 * (length good div 1000)) buf)) (tables db)\<rparr>)"
  using assms
proof (induction "length good" arbitrary: good buf c w db rule: less_induct)
  case less
  note db = less.prems(1) and ok = less.prems(2) and pend = less.prems(3)
    and buf = less.prems(4) and acc = less.prems(5) and bad = less.prems(6)
  show ?case
  proof (cases "length good < 1000")
    case True
    then have split: "take 1000 buf = good @ bad # take (999 - length good) later"
      by (simp add: buf take_Cons')
    have "transfer_loop (s, n, cs) buf c w =
            (Inl e, emit (ExecutedMany (server c) (take 1000 buf)) (emit (Fetched (take 1000 buf)) w))"
      by (rule loop_refused [OF db split acc bad])
    then show ?thesis using True db by simp
  next
    case False
    let ?b = "take 1000 buf"
    let ?good = "drop 1000 good"
    let ?fs = "map (landed db (s, n, cs)) ?b"
    let ?db = "db\<lparr>tables := store_all (map (\<lambda>f. (s, n, f)) ?fs) (tables db)\<rparr>"
    let ?c = "c\<lparr>pending := []\<rparr>"
    let ?w = "(emit (Committed (server c)) (emit (ExecutedMany (server c) ?b) (emit (Fetched ?b) w)))
                \<lparr>servers := AList.update (server c) ?db (servers w)\<rparr>"
    have b: "?b = take 1000 good" using False by (simp add: buf)
    have ne: "buf \<noteq> []" by (simp add: buf)
    have accb: "\<forall>r \<in> set ?b. accepted db (s, n, cs) r"
      using acc unfolding b by (meson in_set_takeD)
    have step: "transfer_loop (s, n, cs) buf c w = transfer_loop (s, n, cs) (drop 1000 buf) ?c ?w"
      using loop_step [OF db ok ne accb] by (simp add: pend comp_def)
    have len: "length ?good < length good" using False by simp
    have db': "map_of (servers ?w) (server ?c) = Some ?db" by (simp add: update_conv')
    have ok': "\<not> rejects ?db CommitTx" using ok by simp
    have rest: "drop 1000 buf = ?good @ bad # later" using False by (simp add: buf)
    have acc': "\<forall>r \<in> set ?good. accepted ?db (s, n, cs) r"
      using acc by (auto simp: accepted_commit dest: in_set_dropD)
    have bad': "insert_result ?db (s, n, cs) bad = Inl e"
      using bad by (simp add: insert_result_commit)
    have ih: "fst (transfer_loop (s, n, cs) (drop 1000 buf) ?c ?w) = Inl e \<and>
         map_of (servers (snd (transfer_loop (s, n, cs) (drop 1000 buf) ?c ?w))) (server ?c) =
           Some (?db\<lparr>tables := append_rows s n
                  (map (landed ?db (s, n, cs)) (take (1000 * (length ?good div 1000)) (drop 1000 buf))) (tables ?db)\<rparr>)"
      by (rule less.hyps [OF len db' ok' _ rest acc' bad']) simp
    have arith: "1000 * (length good div 1000) = 1000 + 1000 * (length ?good div 1000)"
      using False by (simp add: le_div_geq)
    have tk: "take (1000 * (length good div 1000)) buf =
                ?b @ take (1000 * (length ?good div 1000)) (drop 1000 buf)"
      unfolding arith by (rule take_add)
    have A: "landed ?db (s, n, cs) = landed db (s, n, cs)"
      by (rule landed_commit_fun)
    have B: "tables ?db = append_rows s n ?fs (tables db)"
      by (simp add: comp_def store_all_one_table)
    have C: "?db\<lparr>tables := ts\<rparr> = db\<lparr>tables := ts\<rparr>" for ts
      by simp
    have final: "?db\<lparr>tables := append_rows s n
                  (map (landed ?db (s, n, cs)) (take (1000 * (length ?good div 1000)) (drop 1000 buf))) (tables ?db)\<rparr> =
                 db\<lparr>tables := append_rows s n
                  (map (landed db (s, n, cs)) (take (1000 * (length good div 1000)) buf)) (tables db)\<rparr>"
      unfolding A B C tk append_rows_twice by simp
    from ih show ?thesis
      unfolding step final by simp
  qed
qed

lemma files_emit [simp]: "files (emit ev w) = files w"
  by (simp add: emit_def)

lemma files_report [simp]: "files (report e w) = files w"
  by (simp add: report_def)

lemma files_close [simp]: "files (close c w) = files w"
  by (simp add: close_def)

lemma loop_stores:
  assumes "map_of (servers w) (server c) = Some db"
    and "\<not> rejects db CommitTx"
    and "pending c = []"
    and "\<forall>r \<in> set buf. accepted db (s, n, cs) r"
  shows "fst (transfer_loop (s, n, cs) buf c w) = Inr () \<and>
         files (snd (transfer_loop (s, n, cs) buf c w)) = files w \<and>
         map_of (servers (snd (transfer_loop (s, n, cs) buf c w))) =
           (map_of (servers w))(server c \<mapsto>
              db\<lparr>tables := append_rows s n (map (landed db (s, n, cs)) buf) (tables db)\<rparr>)"
  using assms
proof (induction buf arbitrary: c w db rule: batches.induct)
  case (1 buf)
  note db = "1.prems"(1) and ok = "1.prems"(2) and pend = "1.prems"(3) and acc = "1.prems"(4)
  show ?case
  proof (cases "buf = []")
    case True
    have "(map_of (servers w))(server c \<mapsto> db) = map_of (servers w)"
      using db by (simp add: map_upd_triv)
    then show ?thesis using True by (simp add: loop_end)
  next
    case False
    let ?b = "take 1000 buf"
    let ?fs = "map (landed db (s, n, cs)) ?b"
    let ?db = "db\<lparr>tables := store_all (map (\<lambda>f. (s, n, f)) ?fs) (tables db)\<rparr>"
    let ?c = "c\<lparr>pending := []\<rparr>"
    let ?w = "(emit (Committed (server c)) (emit (ExecutedMany (server c) ?b) (emit (Fetched ?b) w)))
                \<lparr>servers := AList.update (server c) ?db (servers w)\<rparr>"
    have accb: "\<forall>r \<in> set ?b. accepted db (s, n, cs) r"
      using acc by (meson in_set_takeD)
    have step: "transfer_loop (s, n, cs) buf c w = transfer_loop (s, n, cs) (drop 1000 buf) ?c ?w"
      using loop_step [OF db ok False accb] by (simp add: pend comp_def)
    have db': "map_of (servers ?w) (server ?c) = Some ?db" by (simp add: update_conv')
    have ok': "\<not> rejects ?db CommitTx" using ok by simp
    have acc': "\<forall>r \<in> set (drop 1000 buf). accepted ?db (s, n, cs) r"
      using acc by (auto simp: accepted_commit dest: in_set_dropD)
    have ih: "fst (transfer_loop (s, n, cs) (drop 1000 buf) ?c ?w) = Inr () \<and>
         files (snd (transfer_loop (s, n, cs) (drop 1000 buf) ?c ?w)) = files ?w \<and>
         map_of (servers (snd (transfer_loop (s, n, cs) (drop 1000 buf) ?c ?w))) =
           (map_of (servers ?w))(server ?c \<mapsto>
              ?db\<lparr>tables := append_rows s n (map (landed ?db (s, n, cs)) (drop 1000 buf)) (tables ?db)\<rparr>)"
      by (rule "1.IH" [OF False db' ok' _ acc']) simp
    have A: "landed ?db (s, n, cs) = landed db (s, n, cs)"
      by (rule landed_commit_fun)
    have B: "tables ?db = append_rows s n ?fs (tables db)"
      by (simp add: comp_def store_all_one_table)
    have C: "?db\<lparr>tables := ts\<rparr> = db\<lparr>tables := ts\<rparr>" for ts
      by simp
    have D: "?fs @ map (landed db (s, n, cs)) (drop 1000 buf) = map (landed db (s, n, cs)) buf"
      by (simp flip: map_append)
    have final: "?db\<lparr>tables := append_rows s n (map (landed ?db (s, n, cs)) (drop 1000 buf)) (tables ?db)\<rparr> =
                 db\<lparr>tables := append_rows s n (map (landed db (s, n, cs)) buf) (tables db)\<rparr>"
      unfolding A B C append_rows_twice D ..
    have srv: "map_of (servers ?w) = (map_of (servers w))(server c \<mapsto> ?db)"
      by (simp add: update_conv')
    from ih show ?thesis
      unfolding step final srv by simp
  qed
qed

subsection \<open>The whole run\<close>

lemma servers_report [simp]: "servers (report e w) = servers w"
  by (simp add: report_def)

lemma trace_report [simp]: "trace (report e w) = trace w"
  by (simp add: report_def)

lemma error_log_report [simp]: "error_log (report e w) = error_log w @ [e]"
  by (simp add: report_def)

lemma servers_close [simp]: "servers (close c w) = servers w"
  by (simp add: close_def)

lemma error_log_close [simp]: "error_log (close c w) = error_log w"
  by (simp add: close_def emit_def)

lemma connect_from_result:
  assumes "connect_from path w = (Inr c, w')"
  shows "pending c = [] \<and> servers w' = servers w \<and> map_of (servers w) (server c) \<noteq> None"
  using assms
  by (auto simp: connect_from_def p_read_config_def connect_with_def psycopg2_connect_def
      split: sum.splits option.splits prod.splits)

lemma connect_from_servers [simp]: "servers (snd (connect_from path w)) = servers w"
  by (auto simp: connect_from_def p_read_config_def connect_with_def psycopg2_connect_def
      split: sum.splits option.splits prod.splits)

lemma servers_get_table_definition [simp]:
  "servers (snd (p_get_table_definition c n w)) = servers w"
  by (auto simp: p_get_table_definition_def catalog_query_def Let_def split: option.splits)

lemma servers_execute [simp]: "servers (snd (execute c st w)) = servers w"
  by (simp add: execute_def Let_def split: option.splits)

lemma servers_select_source [simp]:
  "servers (snd (select_source src tgt n ss ts cols w)) = servers w"
proof -
  have e: "execute c st w0 = (r, w1) \<Longrightarrow> servers w1 = servers w0" for c st w0 r w1
    using servers_execute [of c st w0] by simp
  show ?thesis
    by (auto simp: select_source_def split: prod.splits sum.splits dest!: e)
qed

lemma open_and_select_reached:
  assumes "open_and_select n ss ts w = (Inr (src, tgt, tmpl, buf), w5)"
  shows "pending tgt = [] \<and> servers w5 = servers w \<and> fst tmpl = ts \<and> fst (snd tmpl) = n"
proof -
  have g: "p_get_table_definition c n0 w0 = (r, w1) \<Longrightarrow> servers w1 = servers w0" for c n0 w0 r w1
    using servers_get_table_definition [of c n0 w0] by simp
  have s: "select_source a b c d e f w0 = (r, w1) \<Longrightarrow> servers w1 = servers w0" for a b c d e f w0 r w1
    using servers_select_source [of a b c d e f w0] by simp
  show ?thesis
    using assms
    by (auto simp: open_and_select_def p_connect_to_source_def p_connect_to_target_def Let_def
        split: prod.splits sum.splits dest!: connect_from_result g s)
qed

lemma run_after_select:
  assumes "open_and_select n ss ts w = (Inr (src, tgt, tmpl, buf), w5)"
  shows "p_move_data_for_table n ss ts w =
           (case transfer_loop tmpl buf tgt w5 of
              (res, w6) \<Rightarrow> (res, close tgt (close src (case res of Inl e \<Rightarrow> report e w6 | Inr u \<Rightarrow> w6))))"
  using assms
  by (simp add: p_move_data_for_table_def move_body_def finally_close_def Let_def split: prod.splits)

lemma statements_append [simp]: "statements (xs @ ys) = statements xs @ statements ys"
  by (induction xs rule: statements.induct) auto

lemma trace_close [simp]: "trace (close c w) = trace w @ [Closed (server c)]"
  by (simp add: close_def)

lemma trace_execute [simp]: "trace (snd (execute c st w)) = trace w @ [Executed (server c) st]"
  by (simp add: execute_def Let_def split: option.splits)

lemma execute_open:
  "map_of (servers w) (server c) = Some db \<Longrightarrow>
   execute c st w = (if rejects db st then Inl (DatabaseError st) else eval_query db st, emit (Executed (server c) st) w)"
  by (simp add: execute_def Let_def)

lemma statements_loop [simp]:
  "statements (trace (snd (transfer_loop tmpl buf c w))) = statements (trace w)"
proof (induction tmpl buf c w rule: transfer_loop.induct)
  case (1 tmpl buf c w)
  show ?case
  proof (cases "take 1000 buf = []")
    case True
    then show ?thesis by (subst transfer_loop.simps) (simp add: Let_def)
  next
    case False
    let ?w1 = "emit (Fetched (take 1000 buf)) w"
    obtain r2 w2 where ex: "executemany tmpl (take 1000 buf) c ?w1 = (r2, w2)" by force
    then have t2: "trace w2 = trace w @ [Fetched (take 1000 buf), ExecutedMany (server c) (take 1000 buf)]"
      by (auto simp: executemany_def)
    show ?thesis
    proof (cases r2)
      case (Inl e)
      then show ?thesis using False ex t2
        by (subst transfer_loop.simps) (simp add: Let_def)
    next
      case (Inr c2)
      obtain r3 w3 where co: "commit c2 w2 = (r3, w3)" by force
      then have t3: "statements (trace w3) = statements (trace w2)"
        by (auto simp: commit_def Let_def split: option.splits if_splits)
      show ?thesis
      proof (cases r3)
        case (Inl e)
        then show ?thesis using False ex Inr co t2 t3
          by (subst transfer_loop.simps) (simp add: Let_def)
      next
        case (Inr c3)
        have "statements (trace (snd (transfer_loop tmpl (drop 1000 buf) c3 w3))) = statements (trace w3)"
          using "1.IH" [OF refl refl False ex [symmetric] \<open>r2 = Inr c2\<close> co [symmetric] Inr] .
        then show ?thesis using False ex \<open>r2 = Inr c2\<close> co Inr t2 t3
          by (subst transfer_loop.simps) (simp add: Let_def)
      qed
    qed
  qed
qed

lemma opens_emit [simp]: "opens path (emit ev w) p db = opens path w p db"
  by (simp add: opens_def safe_load_file_def emit_def split: sum.splits)

lemma opens_sessions [simp]: "opens path (w\<lparr>sessions := ss\<rparr>) p db = opens path w p db"
  by (simp add: opens_def safe_load_file_def split: sum.splits)

lemma connect_from_opens:
  assumes "opens path w p db"
  shows "connect_from path w =
           (Inr \<lparr>server = p, pending = []\<rparr>, emit (Connected p) (w\<lparr>sessions := p # sessions w\<rparr>))"
  using assms
  by (auto simp: opens_def connect_from_def p_read_config_def connect_with_def psycopg2_connect_def
      split: sum.splits)

lemma get_table_definition_on:
  assumes "map_of (servers w) (server c) = Some db" and "\<not> rejects db (SelectColumns n)"
  shows "p_get_table_definition c n w =
           (Inr (information_schema_columns db n), emit (Executed (server c) (SelectColumns n)) w)"
  using assms by (simp add: p_get_table_definition_def catalog_query_def Let_def)

lemma opens_server: "opens path w p db \<Longrightarrow> map_of (servers w) p = Some db"
  by (auto simp: opens_def split: sum.splits)

lemma open_and_select_on:
  assumes s: "opens ''config/source_db.yml'' w sp sdb" and sr: "\<not> rejects sdb (SelectColumns n)"
    and t: "opens ''config/target_db.yml'' w tp tdb" and tr: "\<not> rejects tdb (SelectColumns n)"
  shows "open_and_select n ss ts w =
           (case select_source \<lparr>server = sp, pending = []\<rparr> \<lparr>server = tp, pending = []\<rparr> n ss ts
                   (map fst (information_schema_columns tdb n)) (introspected w sp tp n) of
              (Inl e, w5) \<Rightarrow> (Inl (e, Some \<lparr>server = sp, pending = []\<rparr>, Some \<lparr>server = tp, pending = []\<rparr>), w5)
            | (Inr buf, w5) \<Rightarrow>
                (Inr (\<lparr>server = sp, pending = []\<rparr>, \<lparr>server = tp, pending = []\<rparr>,
                      (ts, n, map fst (information_schema_columns sdb n)), buf), w5))"
proof -
  let ?w1 = "emit (Connected sp) (w\<lparr>sessions := sp # sessions w\<rparr>)"
  let ?w2 = "emit (Executed sp (SelectColumns n)) ?w1"
  let ?w3 = "emit (Connected tp) (?w2\<lparr>sessions := tp # sessions ?w2\<rparr>)"
  have 1: "p_connect_to_source w = (Inr \<lparr>server = sp, pending = []\<rparr>, ?w1)"
    unfolding p_connect_to_source_def by (rule connect_from_opens [OF s])
  have 2: "p_get_table_definition \<lparr>server = sp, pending = []\<rparr> n ?w1 =
             (Inr (information_schema_columns sdb n), ?w2)"
    using get_table_definition_on [of ?w1 "\<lparr>server = sp, pending = []\<rparr>" sdb n] opens_server [OF s] sr
    by simp
  have 3: "p_connect_to_target ?w2 = (Inr \<lparr>server = tp, pending = []\<rparr>, ?w3)"
    unfolding p_connect_to_target_def by (rule connect_from_opens [where db = tdb]) (simp add: t)
  have 4: "p_get_table_definition \<lparr>server = tp, pending = []\<rparr> n ?w3 =
             (Inr (information_schema_columns tdb n), emit (Executed tp (SelectColumns n)) ?w3)"
    using get_table_definition_on [of ?w3 "\<lparr>server = tp, pending = []\<rparr>" tdb n] opens_server [OF t] tr
    by simp
  have 5: "emit (Executed tp (SelectColumns n)) ?w3 = introspected w sp tp n"
    by (simp add: introspected_def emit_def)
  show ?thesis
    by (simp add: open_and_select_def 1 2 3 4 5 Let_def split: prod.splits sum.splits)
qed

lemma trace_introspected [simp]:
  "trace (introspected w sp tp n) =
     trace w @ [Connected sp, Executed sp (SelectColumns n), Connected tp, Executed tp (SelectColumns n)]"
  by (simp add: introspected_def emit_def)

lemma servers_introspected [simp]: "servers (introspected w sp tp n) = servers w"
  by (simp add: introspected_def emit_def)

lemma statements_run:
  assumes s: "opens ''config/source_db.yml'' w sp sdb" and sr: "\<not> rejects sdb (SelectColumns n)"
    and t: "opens ''config/target_db.yml'' w tp tdb" and tr: "\<not> rejects tdb (SelectColumns n)"
  shows "statements (trace (snd (p_move_data_for_table n ss ts w))) =
           statements (trace (snd (select_source \<lparr>server = sp, pending = []\<rparr> \<lparr>server = tp, pending = []\<rparr> n ss ts
                   (map fst (information_schema_columns tdb n)) (introspected w sp tp n))))"
proof -
  let ?sel = "select_source \<lparr>server = sp, pending = []\<rparr> \<lparr>server = tp, pending = []\<rparr> n ss ts
                   (map fst (information_schema_columns tdb n)) (introspected w sp tp n)"
  obtain r w5 where sel: "?sel = (r, w5)" by force
  show ?thesis
  proof (cases r)
    case (Inl e)
    then show ?thesis
      using sel open_and_select_on [OF s sr t tr, of ss ts]
      by (simp add: p_move_data_for_table_def move_body_def finally_close_def Let_def)
  next
    case (Inr buf)
    then have "open_and_select n ss ts w =
        (Inr (\<lparr>server = sp, pending = []\<rparr>, \<lparr>server = tp, pending = []\<rparr>,
              (ts, n, map fst (information_schema_columns sdb n)), buf), w5)"
      using sel open_and_select_on [OF s sr t tr, of ss ts] by simp
    note run = run_after_select [OF this]
    obtain res w6 where loop: "transfer_loop (ts, n, map fst (information_schema_columns sdb n)) buf
        \<lparr>server = tp, pending = []\<rparr> w5 = (res, w6)" by force
    have "statements (trace w6) = statements (trace w5)"
      using statements_loop [of "(ts, n, map fst (information_schema_columns sdb n))" buf "\<lparr>server = tp, pending = []\<rparr>" w5]
      by (simp add: loop)
    then show ?thesis
      using sel run loop by (cases res) simp_all
  qed
qed

lemma select_source_trace:
  assumes "map_of (servers w) (server tgt) = Some db"
    and "find_table db ts n = Some t"
    and "\<not> rejects db (SelectCount ts n)"
    and "stored t \<noteq> [] \<longrightarrow> \<not> rejects db (SelectMax ts n) \<and> ''updated_date'' \<in> set (column_names t)"
  shows "trace (snd (select_source src tgt n ss ts cols w)) = trace w @
           (if stored t = []
            then [Executed (server tgt) (SelectCount ts n),
                  Executed (server src) (SelectFrom cols ss n None)]
            else [Executed (server tgt) (SelectCount ts n),
                  Executed (server tgt) (SelectMax ts n),
                  Executed (server src) (SelectFrom cols ss n
                    (Some (sql_max (map (\<lambda>r. field t r ''updated_date'') (stored t)))))])"
  using assms
  by (auto simp add: select_source_def execute_open eval_query_def fetchone_0_def missing_column_def
      split: prod.splits sum.splits)

lemma select_source_counts_first:
  "\<exists>rest. trace (snd (select_source src tgt n ss ts cols w)) =
            trace w @ Executed (server tgt) (SelectCount ts n) # rest"
proof -
  have e: "execute c st w0 = (r, w1) \<Longrightarrow> trace w1 = trace w0 @ [Executed (server c) st]" for c st w0 r w1
    using trace_execute [of c st w0] by simp
  show ?thesis
    by (auto simp: select_source_def split: prod.splits sum.splits dest!: e)
qed

subsection \<open>The load decision\<close>

text \<open>
  C1. Whenever both stores open and both catalogs are read, the run counts the rows of the
  target table first. If the count is 0 the source SELECT has no predicate (full load);
  otherwise the run asks the target for MAX(updated_date) and the source SELECT carries
  \<open>updated_date > watermark\<close> with that value (delta load). These are all the statements
  of the run, in order.
\<close>

theorem load_decision:
  assumes "opens ''config/source_db.yml'' w sp sdb" and "\<not> rejects sdb (SelectColumns n)"
    and "opens ''config/target_db.yml'' w tp tdb" and "\<not> rejects tdb (SelectColumns n)"
    and "find_table tdb ts n = Some t"
    and "\<not> rejects tdb (SelectCount ts n)"
    and "stored t \<noteq> [] \<longrightarrow> \<not> rejects tdb (SelectMax ts n) \<and> ''updated_date'' \<in> set (column_names t)"
  shows "statements (trace (snd (p_move_data_for_table n ss ts w))) =
           statements (trace w) @ [(sp, SelectColumns n), (tp, SelectColumns n), (tp, SelectCount ts n)] @
           (if length (stored t) = 0
            then [(sp, SelectFrom (map fst (information_schema_columns tdb n)) ss n None)]
            else [(tp, SelectMax ts n),
                  (sp, SelectFrom (map fst (information_schema_columns tdb n)) ss n
                         (Some (sql_max (map (\<lambda>r. field t r ''updated_date'') (stored t)))))])"
proof -
  have db: "map_of (servers (introspected w sp tp n)) (server \<lparr>server = tp, pending = []\<rparr>) = Some tdb"
    using opens_server [OF assms(3)] by simp
  show ?thesis
    unfolding statements_run [OF assms(1-4)] select_source_trace [OF db assms(5-7)]
    by simp
qed

theorem load_decision_witness:
  "statements (trace (snd (p_move_data_for_table ''products'' ''core'' ''dwh''
      (two_stores (plain_store [core_products [[Num 1, Num 50, Num 10], [Num 2, Num 60, Num 20]]])
                  (plain_store [dwh_products [[Num 1, Num 50, Num 10]]]))))) =
     [(src_params, SelectColumns ''products''), (tgt_params, SelectColumns ''products''),
      (tgt_params, SelectCount ''dwh'' ''products''), (tgt_params, SelectMax ''dwh'' ''products''),
      (src_params, SelectFrom [''id'', ''stock'', ''updated_date''] ''core'' ''products'' (Some (Num 10)))]"
proof -
  let ?sdb = "plain_store [core_products [[Num 1, Num 50, Num 10], [Num 2, Num 60, Num 20]]]"
  let ?t = "dwh_products [[Num 1, Num 50, Num 10]]"
  let ?tdb = "plain_store [?t]"
  let ?w = "two_stores ?sdb ?tdb"
  have 1: "opens ''config/source_db.yml'' ?w src_params ?sdb"
    by (simp add: model_defs world_defs)
  have 2: "\<not> rejects ?sdb (SelectColumns ''products'')"
    by (simp add: world_defs)
  have 3: "opens ''config/target_db.yml'' ?w tgt_params ?tdb"
    by (simp add: model_defs world_defs)
  have 4: "\<not> rejects ?tdb (SelectColumns ''products'')"
    by (simp add: world_defs)
  have 5: "find_table ?tdb ''dwh'' ''products'' = Some ?t"
    by (simp add: model_defs world_defs)
  have 6: "\<not> rejects ?tdb (SelectCount ''dwh'' ''products'')"
    by (simp add: world_defs)
  have 7: "stored ?t \<noteq> [] \<longrightarrow>
      \<not> rejects ?tdb (SelectMax ''dwh'' ''products'') \<and> ''updated_date'' \<in> set (column_names ?t)"
    by (simp add: model_defs world_defs)
  show ?thesis
    using load_decision [OF 1 2 3 4 5 6 7, of "''core''"]
    by (simp add: model_defs world_defs)
qed

text \<open>
  C3. Claimed: with a non-empty target whose \<open>updated_date\<close> values are all NULL, the run
  does something else than send a predicate built from the null watermark. It does not:
  in this world the source receives \<open>WHERE updated_date > 'None'\<close>.
\<close>

theorem null_watermark_counterexample:
  "statements (trace (snd (p_move_data_for_table ''products'' ''core'' ''dwh''
      (two_stores (plain_store [core_products [[Num 1, Num 50, Num 10]]])
                  (plain_store [dwh_products [[Num 1, Num 50, Null]]]))))) =
     [(src_params, SelectColumns ''products''), (tgt_params, SelectColumns ''products''),
      (tgt_params, SelectCount ''dwh'' ''products''), (tgt_params, SelectMax ''dwh'' ''products''),
      (src_params, SelectFrom [''id'', ''stock'', ''updated_date''] ''core'' ''products'' (Some Null))]"
  by code_simp

lemma sql_max_all_null: "\<forall>v \<in> set vs. v = Null \<Longrightarrow> sql_max vs = Null"
  by (induction vs) auto

text \<open>
  C3, as the code has it: a non-empty target always means a delta load. When every
  \<open>updated_date\<close> of the target is NULL, the watermark is \<open>None\<close> and the source SELECT
  carries the predicate \<open>updated_date > 'None'\<close>; there is no fallback to a full load.
\<close>

theorem null_watermark_stays_delta:
  assumes "opens ''config/source_db.yml'' w sp sdb" and "\<not> rejects sdb (SelectColumns n)"
    and "opens ''config/target_db.yml'' w tp tdb" and "\<not> rejects tdb (SelectColumns n)"
    and "find_table tdb ts n = Some t"
    and "stored t \<noteq> []"
    and "\<forall>r \<in> set (stored t). field t r ''updated_date'' = Null"
    and "''updated_date'' \<in> set (column_names t)"
    and "\<not> rejects tdb (SelectCount ts n)" and "\<not> rejects tdb (SelectMax ts n)"
  shows "statements (trace (snd (p_move_data_for_table n ss ts w))) =
           statements (trace w) @
           [(sp, SelectColumns n), (tp, SelectColumns n), (tp, SelectCount ts n), (tp, SelectMax ts n),
            (sp, SelectFrom (map fst (information_schema_columns tdb n)) ss n (Some Null))]"
proof -
  have db: "map_of (servers (introspected w sp tp n)) (server \<lparr>server = tp, pending = []\<rparr>) = Some tdb"
    using opens_server [OF assms(3)] by simp
  have mx: "stored t \<noteq> [] \<longrightarrow> \<not> rejects tdb (SelectMax ts n) \<and> ''updated_date'' \<in> set (column_names t)"
    using assms by simp
  have nul: "sql_max (map (\<lambda>r. field t r ''updated_date'') (stored t)) = Null"
    using assms(7) by (intro sql_max_all_null) simp
  show ?thesis
    unfolding statements_run [OF assms(1-4)] select_source_trace [OF db assms(5) assms(9) mx]
    using assms(6) by (simp add: nul)
qed

theorem null_watermark_stays_delta_witness:
  "statements (trace (snd (p_move_data_for_table ''products'' ''core'' ''dwh''
      (two_stores (plain_store [core_products [[Num 1, Num 50, Num 10]]])
                  (plain_store [dwh_products [[Num 7, Num 5, Null], [Num 8, Num 6, Null]]]))))) =
     [(src_params, SelectColumns ''products''), (tgt_params, SelectColumns ''products''),
      (tgt_params, SelectCount ''dwh'' ''products''), (tgt_params, SelectMax ''dwh'' ''products''),
      (src_params, SelectFrom [''id'', ''stock'', ''updated_date''] ''core'' ''products'' (Some Null))]"
proof -
  let ?sdb = "plain_store [core_products [[Num 1, Num 50, Num 10]]]"
  let ?t = "dwh_products [[Num 7, Num 5, Null], [Num 8, Num 6, Null]]"
  let ?tdb = "plain_store [?t]"
  let ?w = "two_stores ?sdb ?tdb"
  have 1: "opens ''config/source_db.yml'' ?w src_params ?sdb"
    by (simp add: model_defs world_defs)
  have 2: "\<not> rejects ?sdb (SelectColumns ''products'')"
    by (simp add: world_defs)
  have 3: "opens ''config/target_db.yml'' ?w tgt_params ?tdb"
    by (simp add: model_defs world_defs)
  have 4: "\<not> rejects ?tdb (SelectColumns ''products'')"
    by (simp add: world_defs)
  have 5: "find_table ?tdb ''dwh'' ''products'' = Some ?t"
    by (simp add: model_defs world_defs)
  have 6: "stored ?t \<noteq> []"
    by (simp add: world_defs)
  have 7: "\<forall>r \<in> set (stored ?t). field ?t r ''updated_date'' = Null"
    by (simp add: model_defs world_defs)
  have 8: "''updated_date'' \<in> set (column_names ?t)"
    by (simp add: model_defs world_defs)
  have 9: "\<not> rejects ?tdb (SelectCount ''dwh'' ''products'')"
    by (simp add: world_defs)
  have 10: "\<not> rejects ?tdb (SelectMax ''dwh'' ''products'')"
    by (simp add: world_defs)
  show ?thesis
    using null_watermark_stays_delta [OF 1 2 3 4 5 6 7 8 9 10, of "''core''"]
    by (simp add: model_defs world_defs)
qed

subsection \<open>Schema introspection\<close>

text \<open>
  C10. \<open>p_get_table_definition\<close> filters the catalog by table name only: on an open
  connection it returns the columns of every table of that name, one table after the
  other, whatever the schema.
\<close>

theorem introspection_ignores_schema:
  assumes "map_of (servers w) (server i_connection) = Some db"
    and "\<not> rejects db (SelectColumns i_table_name)"
  shows "fst (p_get_table_definition i_connection i_table_name w) =
           Inr (concat (map columns (filter (\<lambda>t. tname t = i_table_name) (tables db))))"
  using assms
  by (simp add: get_table_definition_on information_schema_columns_def)

theorem introspection_ignores_schema_witness:
  "fst (p_get_table_definition \<lparr>server = tgt_params, pending = []\<rparr> ''products''
          (two_stores (plain_store [core_products []]) (plain_store [archive_products, dwh_products []]))) =
     Inr [(''sku'', ''text''), (''price'', ''numeric''),
          (''id'', ''integer''), (''stock'', ''integer''), (''updated_date'', ''timestamp'')]"
proof -
  let ?tdb = "plain_store [archive_products, dwh_products []]"
  let ?w = "two_stores (plain_store [core_products []]) ?tdb"
  have 1: "map_of (servers ?w) (server \<lparr>server = tgt_params, pending = []\<rparr>) = Some ?tdb"
    by (simp add: world_defs)
  have 2: "\<not> rejects ?tdb (SelectColumns ''products'')"
    by (simp add: world_defs)
  show ?thesis
    using introspection_ignores_schema [OF 1 2] by (simp add: world_defs)
qed

lemma error_log_emit [simp]: "error_log (emit ev w) = error_log w"
  by (simp add: emit_def)

lemma error_log_introspected [simp]: "error_log (introspected w sp tp n) = error_log w"
  by (simp add: introspected_def emit_def)

lemma error_log_execute [simp]: "error_log (snd (execute c st w)) = error_log w"
  by (simp add: execute_def Let_def split: option.splits)

lemma error_log_select_source [simp]:
  "error_log (snd (select_source src tgt n ss ts cols w)) = error_log w"
proof -
  have e: "execute c st w0 = (r, w1) \<Longrightarrow> error_log w1 = error_log w0" for c st w0 r w1
    using error_log_execute [of c st w0] by simp
  show ?thesis
    by (auto simp: select_source_def split: prod.splits sum.splits dest!: e)
qed

text \<open>What the source answers when the load decision has been made.\<close>

lemma select_source_result:
  assumes "map_of (servers w) (server tgt) = Some tdb"
    and "map_of (servers w) (server src) = Some sdb"
    and "find_table tdb ts n = Some t"
    and "\<not> rejects tdb (SelectCount ts n)"
    and "stored t \<noteq> [] \<longrightarrow> \<not> rejects tdb (SelectMax ts n) \<and> ''updated_date'' \<in> set (column_names t)"
  shows "fst (select_source src tgt n ss ts cols w) =
           (if stored t = []
            then (if rejects sdb (SelectFrom cols ss n None)
                  then Inl (DatabaseError (SelectFrom cols ss n None))
                  else eval_query sdb (SelectFrom cols ss n None))
            else (if rejects sdb (SelectFrom cols ss n (Some (sql_max (map (\<lambda>r. field t r ''updated_date'') (stored t)))))
                  then Inl (DatabaseError (SelectFrom cols ss n (Some (sql_max (map (\<lambda>r. field t r ''updated_date'') (stored t))))))
                  else eval_query sdb (SelectFrom cols ss n (Some (sql_max (map (\<lambda>r. field t r ''updated_date'') (stored t)))))))"
  using assms
  by (auto simp add: select_source_def execute_open eval_query_def fetchone_0_def missing_column_def
      split: prod.splits sum.splits)

lemma no_table_of_name:
  assumes "\<forall>t \<in> set (tables db). tname t \<noteq> n"
  shows "find_table db s n = None" and "information_schema_columns db n = []"
  using assms
  by (auto simp: find_table_def find_None_iff information_schema_columns_def filter_empty_conv)

lemma select_from_missing_table:
  assumes "find_table db s n = None"
  shows "eval_query db (SelectFrom cols s n p) = Inl (UndefinedTable s n)"
  using assms by (cases p) (simp_all add: eval_query_def)

text \<open>
  C8. Claimed: the caller treats an empty column list as a definition error and does not
  go on. It does go on: here the source has no table \<open>products\<close>, the introspection
  returns the empty list, and the run still counts the target's rows and sends the source
  SELECT; the error that ends it is the engine's.
\<close>

theorem empty_definition_counterexample:
  "fst (p_get_table_definition \<lparr>server = src_params, pending = []\<rparr> ''products''
          (two_stores (plain_store []) (plain_store [dwh_products []]))) = Inr [] \<and>
   statements (trace (snd (p_move_data_for_table ''products'' ''core'' ''dwh''
      (two_stores (plain_store []) (plain_store [dwh_products []]))))) =
     [(src_params, SelectColumns ''products''), (tgt_params, SelectColumns ''products''),
      (tgt_params, SelectCount ''dwh'' ''products''),
      (src_params, SelectFrom [''id'', ''stock'', ''updated_date''] ''core'' ''products'' None)] \<and>
   fst (p_move_data_for_table ''products'' ''core'' ''dwh''
      (two_stores (plain_store []) (plain_store [dwh_products []]))) = Inl (UndefinedTable ''core'' ''products'')"
  by code_simp

text \<open>
  C8, as the code has it: introspection returns the empty list when no table has the name,
  and the caller never looks at the list. With the source table missing and the target
  table there, the run goes through the whole load decision as usual (it counts the
  target's rows, asks for the watermark when there are rows, and sends the source SELECT);
  it ends with the engine's error for that SELECT, undefined table, which
  \<open>p_move_data_for_table\<close> reports once and hands to its caller.
\<close>

theorem empty_definition_not_checked:
  assumes "opens ''config/source_db.yml'' w sp sdb" and "\<forall>st. \<not> rejects sdb st"
    and "opens ''config/target_db.yml'' w tp tdb" and "\<not> rejects tdb (SelectColumns n)"
    and "\<forall>t \<in> set (tables sdb). tname t \<noteq> n"
    and "find_table tdb ts n = Some t"
    and "\<not> rejects tdb (SelectCount ts n)"
    and "stored t \<noteq> [] \<longrightarrow> \<not> rejects tdb (SelectMax ts n) \<and> ''updated_date'' \<in> set (column_names t)"
  shows "fst (p_get_table_definition \<lparr>server = sp, pending = []\<rparr> n w) = Inr [] \<and>
         statements (trace (snd (p_move_data_for_table n ss ts w))) =
           statements (trace w) @
           [(sp, SelectColumns n), (tp, SelectColumns n), (tp, SelectCount ts n)] @
           (if stored t = []
            then [(sp, SelectFrom (map fst (information_schema_columns tdb n)) ss n None)]
            else [(tp, SelectMax ts n),
                  (sp, SelectFrom (map fst (information_schema_columns tdb n)) ss n
                         (Some (sql_max (map (\<lambda>r. field t r ''updated_date'') (stored t)))))]) \<and>
         fst (p_move_data_for_table n ss ts w) = Inl (UndefinedTable ss n) \<and>
         error_log (snd (p_move_data_for_table n ss ts w)) = error_log w @ [UndefinedTable ss n]"
proof -
  let ?src = "\<lparr>server = sp, pending = []\<rparr>" and ?tgt = "\<lparr>server = tp, pending = []\<rparr>"
  let ?cols = "map fst (information_schema_columns tdb n)"
  let ?w4 = "introspected w sp tp n"
  let ?sel = "select_source ?src ?tgt n ss ts ?cols ?w4"
  have sr: "\<not> rejects sdb (SelectColumns n)" using assms(2) by simp
  have 1: "fst (p_get_table_definition ?src n w) = Inr []"
    using opens_server [OF assms(1)] sr no_table_of_name(2) [OF assms(5)]
    by (simp add: get_table_definition_on)
  have dbt: "map_of (servers ?w4) (server ?tgt) = Some tdb"
    using opens_server [OF assms(3)] by simp
  have dbs: "map_of (servers ?w4) (server ?src) = Some sdb"
    using opens_server [OF assms(1)] by simp
  have 2: "statements (trace (snd (p_move_data_for_table n ss ts w))) =
           statements (trace w) @
           [(sp, SelectColumns n), (tp, SelectColumns n), (tp, SelectCount ts n)] @
           (if stored t = []
            then [(sp, SelectFrom ?cols ss n None)]
            else [(tp, SelectMax ts n),
                  (sp, SelectFrom ?cols ss n
                         (Some (sql_max (map (\<lambda>r. field t r ''updated_date'') (stored t)))))])"
    unfolding statements_run [OF assms(1) sr assms(3,4)] select_source_trace [OF dbt assms(6-8)]
    by simp
  have res: "fst ?sel = Inl (UndefinedTable ss n)"
    unfolding select_source_result [OF dbt dbs assms(6-8)]
    using assms(2) select_from_missing_table [OF no_table_of_name(1) [OF assms(5)]]
    by simp
  then obtain w5 where sel: "?sel = (Inl (UndefinedTable ss n), w5)"
    by (cases ?sel) auto
  have log5: "error_log w5 = error_log w"
    using error_log_select_source [of ?src ?tgt n ss ts ?cols ?w4] by (simp add: sel)
  have "open_and_select n ss ts w = (Inl (UndefinedTable ss n, Some ?src, Some ?tgt), w5)"
    using open_and_select_on [OF assms(1) sr assms(3,4), of ss ts] by (simp add: sel)
  then have "p_move_data_for_table n ss ts w =
      (Inl (UndefinedTable ss n), close ?tgt (close ?src (report (UndefinedTable ss n) w5)))"
    by (simp add: p_move_data_for_table_def move_body_def finally_close_def Let_def)
  then have 3: "fst (p_move_data_for_table n ss ts w) = Inl (UndefinedTable ss n)"
    and 4: "error_log (snd (p_move_data_for_table n ss ts w)) = error_log w @ [UndefinedTable ss n]"
    by (simp_all add: log5)
  from 1 2 3 4 show ?thesis by blast
qed

theorem empty_definition_not_checked_witness:
  "fst (p_get_table_definition \<lparr>server = src_params, pending = []\<rparr> ''products''
          (two_stores (plain_store [archive_products\<lparr>tname := ''prices''\<rparr>])
                      (plain_store [dwh_products [good_row]]))) = Inr [] \<and>
   statements (trace (snd (p_move_data_for_table ''products'' ''core'' ''dwh''
      (two_stores (plain_store [archive_products\<lparr>tname := ''prices''\<rparr>])
                  (plain_store [dwh_products [good_row]]))))) =
     [(src_params, SelectColumns ''products''), (tgt_params, SelectColumns ''products''),
      (tgt_params, SelectCount ''dwh'' ''products''), (tgt_params, SelectMax ''dwh'' ''products''),
      (src_params, SelectFrom [''id'', ''stock'', ''updated_date''] ''core'' ''products'' (Some (Num 10)))] \<and>
   fst (p_move_data_for_table ''products'' ''core'' ''dwh''
      (two_stores (plain_store [archive_products\<lparr>tname := ''prices''\<rparr>])
                  (plain_store [dwh_products [good_row]]))) = Inl (UndefinedTable ''core'' ''products'') \<and>
   error_log (snd (p_move_data_for_table ''products'' ''core'' ''dwh''
      (two_stores (plain_store [archive_products\<lparr>tname := ''prices''\<rparr>])
                  (plain_store [dwh_products [good_row]])))) = [UndefinedTable ''core'' ''products'']"
proof -
  let ?sdb = "plain_store [archive_products\<lparr>tname := ''prices''\<rparr>]"
  let ?t = "dwh_products [good_row]"
  let ?tdb = "plain_store [?t]"
  let ?w = "two_stores ?sdb ?tdb"
  have 1: "opens ''config/source_db.yml'' ?w src_params ?sdb"
    by (simp add: model_defs world_defs)
  have 2: "\<forall>st. \<not> rejects ?sdb st"
    by (simp add: world_defs)
  have 3: "opens ''config/target_db.yml'' ?w tgt_params ?tdb"
    by (simp add: model_defs world_defs)
  have 4: "\<not> rejects ?tdb (SelectColumns ''products'')"
    by (simp add: world_defs)
  have 5: "\<forall>t \<in> set (tables ?sdb). tname t \<noteq> ''products''"
    by (simp add: world_defs)
  have 6: "find_table ?tdb ''dwh'' ''products'' = Some ?t"
    by (simp add: model_defs world_defs)
  have 7: "\<not> rejects ?tdb (SelectCount ''dwh'' ''products'')"
    by (simp add: world_defs)
  have 8: "stored ?t \<noteq> [] \<longrightarrow>
      \<not> rejects ?tdb (SelectMax ''dwh'' ''products'') \<and> ''updated_date'' \<in> set (column_names ?t)"
    by (simp add: model_defs world_defs)
  show ?thesis
    using empty_definition_not_checked [OF 1 2 3 4 5 6 7 8, of "''core''"]
    by (simp add: model_defs world_defs)
qed

subsection \<open>The transfer loop\<close>

lemma batches_replicate_2500:
  "batches (replicate 2500 x) = [replicate 1000 x, replicate 1000 x, replicate 500 x]"
  by (subst batches.simps, simp, subst batches.simps, simp, subst batches.simps, simp,
      subst batches.simps, simp)

text \<open>
  C5. For every content of the source cursor, as long as the target accepts the rows, the
  loop fetches the next 1000 rows at most, runs one bulk insert and then one commit for
  them before it fetches again, and ends with the first empty fetch: the calls it makes
  are exactly those of the successive batches, and when it returns the target table has
  received the rows of every batch, in order, and nothing else has changed in the stores.
  The batches are non-empty, hold at most 1000 rows and make up the cursor's content;
  2500 rows make three batches of 1000, 1000 and 500 rows.
\<close>

theorem transfer_in_batches:
  assumes "map_of (servers w) (server c) = Some db"
    and "\<not> rejects db CommitTx"
    and "pending c = []"
    and "\<forall>r \<in> set buf. accepted db (s, n, cs) r"
  shows "fst (transfer_loop (s, n, cs) buf c w) = Inr () \<and>
         trace (snd (transfer_loop (s, n, cs) buf c w)) =
           trace w @ concat (map (\<lambda>b. [Fetched b, ExecutedMany (server c) b, Committed (server c)]) (batches buf))
             @ [Fetched []] \<and>
         map_of (servers (snd (transfer_loop (s, n, cs) buf c w))) =
           (map_of (servers w))(server c \<mapsto>
              db\<lparr>tables := append_rows s n
                   (concat (map (map (landed db (s, n, cs))) (batches buf))) (tables db)\<rparr>) \<and>
         concat (batches buf) = buf \<and>
         (\<forall>b \<in> set (batches buf). b \<noteq> [] \<and> length b \<le> 1000) \<and>
         (length buf = 2500 \<longrightarrow> map length (batches buf) = [1000, 1000, 500])"
proof -
  have "concat (map (map (landed db (s, n, cs))) (batches buf)) =
          map (landed db (s, n, cs)) (concat (batches buf))"
    by (simp add: map_concat)
  then have rows: "concat (map (map (landed db (s, n, cs))) (batches buf)) = map (landed db (s, n, cs)) buf"
    using batches_props [of buf] by simp
  show ?thesis
    unfolding rows
    using loop_accepts [OF assms(1,2,4)] loop_stores [OF assms] batches_props [of buf] batches_2500 [of buf]
    by blast
qed

theorem transfer_in_batches_witness:
  "fst (transfer_loop (''dwh'', ''products'', product_names) (replicate 2500 good_row)
          \<lparr>server = tgt_params, pending = []\<rparr>
          (two_stores (plain_store []) (plain_store [dwh_products []]))) = Inr () \<and>
   trace (snd (transfer_loop (''dwh'', ''products'', product_names) (replicate 2500 good_row)
          \<lparr>server = tgt_params, pending = []\<rparr>
          (two_stores (plain_store []) (plain_store [dwh_products []])))) =
     [Fetched (replicate 1000 good_row), ExecutedMany tgt_params (replicate 1000 good_row), Committed tgt_params,
      Fetched (replicate 1000 good_row), ExecutedMany tgt_params (replicate 1000 good_row), Committed tgt_params,
      Fetched (replicate 500 good_row), ExecutedMany tgt_params (replicate 500 good_row), Committed tgt_params,
      Fetched []] \<and>
   map stored (target_tables (snd (transfer_loop (''dwh'', ''products'', product_names) (replicate 2500 good_row)
          \<lparr>server = tgt_params, pending = []\<rparr>
          (two_stores (plain_store []) (plain_store [dwh_products []]))))) =
     [replicate 1000 good_row @ replicate 1000 good_row @ replicate 500 good_row] \<and>
   map length (batches (replicate 2500 good_row)) = [1000, 1000, 500]"
proof -
  let ?tdb = "plain_store [dwh_products []]"
  let ?w = "two_stores (plain_store []) ?tdb"
  let ?c = "\<lparr>server = tgt_params, pending = []\<rparr>"
  have 1: "map_of (servers ?w) (server ?c) = Some ?tdb"
    by (simp add: world_defs)
  have 2: "\<not> rejects ?tdb CommitTx"
    by (simp add: world_defs)
  have 3: "pending ?c = []"
    by simp
  have 4: "\<forall>r \<in> set (replicate 2500 good_row). accepted ?tdb (''dwh'', ''products'', product_names) r"
    by (simp add: insert_defs model_defs world_defs)
  show ?thesis
    using transfer_in_batches [OF 1 2 3 4]
    by (simp add: batches_replicate_2500 insert_defs model_defs world_defs)
qed

text \<open>
  C6. Let a run reach the loop and let \<open>bad\<close> be the first row the target refuses, after
  the rows \<open>good\<close>. Then the run ends with the error of that INSERT, handed to the caller
  and reported; the target has received exactly the rows of the full batches before the
  one that holds \<open>bad\<close>, and nothing of that batch or of a later one.
\<close>

theorem insert_failure_aborts:
  assumes "open_and_select n ss ts w = (Inr (src, tgt, tmpl, buf), w5)"
    and "map_of (servers w) (server tgt) = Some db"
    and "\<not> rejects db CommitTx"
    and "buf = good @ bad # later"
    and "\<forall>r \<in> set good. accepted db tmpl r"
    and "insert_result db tmpl bad = Inl e"
  shows "fst (p_move_data_for_table n ss ts w) = Inl e \<and>
         e \<in> set (error_log (snd (p_move_data_for_table n ss ts w))) \<and>
         map_of (servers (snd (p_move_data_for_table n ss ts w))) (server tgt) =
           Some (db\<lparr>tables := append_rows ts n
                  (map (landed db tmpl) (take (1000 * (length good div 1000)) buf)) (tables db)\<rparr>)"
proof -
  obtain s n' cs where tmpl: "tmpl = (s, n', cs)" by (cases tmpl) auto
  from open_and_select_reached [OF assms(1)]
  have pend: "pending tgt = []" and srv: "servers w5 = servers w" and s: "s = ts" and n: "n' = n"
    by (simp_all add: tmpl)
  have db5: "map_of (servers w5) (server tgt) = Some db"
    using assms(2) srv by simp
  obtain res w6 where loop: "transfer_loop tmpl buf tgt w5 = (res, w6)" by force
  from loop_stops_at_refusal [OF db5 assms(3) pend assms(4), of s n' cs e] assms(5,6)
  have res: "res = Inl e"
    and tabs: "map_of (servers w6) (server tgt) =
       Some (db\<lparr>tables := append_rows ts n
                  (map (landed db tmpl) (take (1000 * (length good div 1000)) buf)) (tables db)\<rparr>)"
    using loop by (simp_all add: tmpl s n)
  show ?thesis
    using run_after_select [OF assms(1)] loop res tabs by simp
qed

theorem insert_failure_aborts_witness:
  "fst (p_move_data_for_table ''products'' ''core'' ''dwh''
      (two_stores (plain_store [core_products (replicate 1500 good_row @ bad_row # replicate 999 good_row)])
                  (strict_store [dwh_products []]))) =
     Inl (DatabaseError (InsertInto ''dwh'' ''products'' product_names bad_row)) \<and>
   map stored (target_tables (snd (p_move_data_for_table ''products'' ''core'' ''dwh''
      (two_stores (plain_store [core_products (replicate 1500 good_row @ bad_row # replicate 999 good_row)])
                  (strict_store [dwh_products []]))))) = [replicate 1000 good_row]"
proof -
  let ?sdb = "plain_store [core_products (replicate 1500 good_row @ bad_row # replicate 999 good_row)]"
  let ?tdb = "strict_store [dwh_products []]"
  let ?w = "two_stores ?sdb ?tdb"
  let ?src = "\<lparr>server = src_params, pending = []\<rparr>"
  let ?tgt = "\<lparr>server = tgt_params, pending = []\<rparr>"
  let ?tmpl = "(''dwh'', ''products'', product_names)"
  let ?buf = "replicate 1500 good_row @ bad_row # replicate 999 good_row"
  let ?e = "DatabaseError (InsertInto ''dwh'' ''products'' product_names bad_row)"
  have s: "opens ''config/source_db.yml'' ?w src_params ?sdb"
    by (simp add: model_defs world_defs)
  have sr: "\<not> rejects ?sdb (SelectColumns ''products'')"
    by (simp add: world_defs)
  have t: "opens ''config/target_db.yml'' ?w tgt_params ?tdb"
    by (simp add: model_defs world_defs)
  have tr: "\<not> rejects ?tdb (SelectColumns ''products'')"
    by (simp add: world_defs)
  have "fst (open_and_select ''products'' ''core'' ''dwh'' ?w) = Inr (?src, ?tgt, ?tmpl, ?buf)"
    unfolding open_and_select_on [OF s sr t tr]
    by (simp add: select_source_def execute_def eval_query_def fetchone_0_def introspected_def emit_def
        model_defs world_defs Let_def)
  then obtain w5 where 1: "open_and_select ''products'' ''core'' ''dwh'' ?w = (Inr (?src, ?tgt, ?tmpl, ?buf), w5)"
    by (cases "open_and_select ''products'' ''core'' ''dwh'' ?w") auto
  have 2: "map_of (servers ?w) (server ?tgt) = Some ?tdb"
    by (simp add: world_defs)
  have 3: "\<not> rejects ?tdb CommitTx"
    by (simp add: world_defs)
  have 4: "?buf = replicate 1500 good_row @ bad_row # replicate 999 good_row"
    by simp
  have 5: "\<forall>r \<in> set (replicate 1500 good_row). accepted ?tdb ?tmpl r"
    by (simp add: insert_defs model_defs world_defs)
  have 6: "insert_result ?tdb ?tmpl bad_row = Inl ?e"
    by (simp add: insert_defs model_defs world_defs)
  show ?thesis
    using insert_failure_aborts [OF 1 2 3 4 5 6]
    by (simp add: insert_defs model_defs world_defs)
qed

subsection \<open>Delta loads when both catalogs list the columns alike\<close>

text \<open>
  When the source and the target catalog give the same column list for the table, every
  selected row is stored as it is. Then a delta load adds exactly the source rows whose
  \<open>updated_date\<close> is above the watermark, and a second run on the unchanged source adds
  nothing.
\<close>

lemma files_execute [simp]: "files (snd (execute c st w)) = files w"
  by (simp add: execute_def Let_def split: option.splits)

lemma files_select_source [simp]:
  "files (snd (select_source src tgt n ss ts cols w)) = files w"
proof -
  have e: "execute c st w0 = (r, w1) \<Longrightarrow> files w1 = files w0" for c st w0 r w1
    using files_execute [of c st w0] by simp
  show ?thesis
    by (auto simp: select_source_def split: prod.splits sum.splits dest!: e)
qed

lemma files_introspected [simp]: "files (introspected w sp tp n) = files w"
  by (simp add: introspected_def emit_def)

text \<open>Reading the columns of a table in its own column order gives the row back.\<close>

lemma zip_lookup_all:
  assumes "distinct cs" and "length r = length cs"
  shows "map (\<lambda>c. case map_of (zip cs r) c of Some v \<Rightarrow> v | None \<Rightarrow> Null) cs = r"
proof (rule nth_equalityI)
  show "length (map (\<lambda>c. case map_of (zip cs r) c of Some v \<Rightarrow> v | None \<Rightarrow> Null) cs) = length r"
    using assms by simp
next
  fix i
  assume "i < length (map (\<lambda>c. case map_of (zip cs r) c of Some v \<Rightarrow> v | None \<Rightarrow> Null) cs)"
  then have i: "i < length cs" by simp
  then have "map_of (zip cs r) (cs ! i) = Some (r ! i)"
    using assms by (simp add: map_of_zip_nth)
  then show "map (\<lambda>c. case map_of (zip cs r) c of Some v \<Rightarrow> v | None \<Rightarrow> Null) cs ! i = r ! i"
    using i by simp
qed

lemma project_own_columns:
  assumes "distinct (column_names t)" and "length r = length (column_names t)"
  shows "map (field t r) (column_names t) = r"
proof -
  have "field t r = (\<lambda>c. case map_of (zip (column_names t) r) c of Some v \<Rightarrow> v | None \<Rightarrow> Null)"
    by (rule ext) (simp add: field_def)
  then show ?thesis using zip_lookup_all [OF assms] by simp
qed

lemma insert_own_columns:
  assumes "find_table db s n = Some t"
    and "distinct (column_names t)" and "column_names t \<noteq> []"
    and "length r = length (column_names t)"
    and "\<not> rejects db (InsertInto s n (column_names t) r)"
  shows "insert_result db (s, n, column_names t) r = Inr r"
proof -
  have "find (\<lambda>c. c \<notin> set (column_names t)) (column_names t) = None"
    by (simp add: find_None_iff)
  then show ?thesis
    using assms zip_lookup_all [of "column_names t" r]
    by (simp add: insert_result_def bind_params_def eval_insert_def missing_column_def)
qed

lemma sql_max_in: "sql_max vs = Num m \<Longrightarrow> Num m \<in> set vs"
proof (induction vs arbitrary: m rule: sql_max.induct)
  case 1
  then show ?case by simp
next
  case (2 vs)
  then show ?case by simp
next
  case (3 a vs)
  then show ?case by (cases "sql_max vs") (auto simp: max_def split: if_splits)
qed

lemma sql_max_ge: "Num a \<in> set vs \<Longrightarrow> \<exists>m. sql_max vs = Num m \<and> a \<le> m"
proof (induction vs rule: sql_max.induct)
  case 1
  then show ?case by simp
next
  case (2 vs)
  then show ?case by simp
next
  case (3 b vs)
  show ?case
  proof (cases "sql_max vs")
    case Null
    have "Num a \<notin> set vs"
    proof
      assume "Num a \<in> set vs"
      from "3.IH" [OF this] Null show False by simp
    qed
    with "3.prems" have "a = b" by simp
    with Null show ?thesis by simp
  next
    case (Num c)
    show ?thesis
    proof (cases "a = b")
      case True
      with Num show ?thesis by simp
    next
      case False
      with "3.prems" have "Num a \<in> set vs" by simp
      from "3.IH" [OF this] Num show ?thesis by auto
    qed
  qed
qed


lemma select_source_delta:
  assumes "map_of (servers w) (server tgt) = Some tdb"
    and "map_of (servers w) (server src) = Some sdb"
    and "find_table tdb ts n = Some t"
    and "\<not> rejects tdb (SelectCount ts n)" and "\<not> rejects tdb (SelectMax ts n)"
    and "''updated_date'' \<in> set (column_names t)"
    and "sql_max (map (\<lambda>r. field t r ''updated_date'') (stored t)) = Num m"
    and "\<not> rejects sdb (SelectFrom cols ss n (Some (Num m)))"
  shows "fst (select_source src tgt n ss ts cols w) = eval_query sdb (SelectFrom cols ss n (Some (Num m)))"
proof -
  have "stored t \<noteq> []" using assms(7) by auto
  then show ?thesis
    using assms
    by (auto simp add: select_source_def execute_open eval_query_def fetchone_0_def missing_column_def
        split: prod.splits sum.splits)
qed

lemma run_transfers:
  assumes s: "opens ''config/source_db.yml'' w sp sdb" and sr: "\<not> rejects sdb (SelectColumns n)"
    and t: "opens ''config/target_db.yml'' w tp tdb" and tr: "\<not> rejects tdb (SelectColumns n)"
    and sel: "fst (select_source \<lparr>server = sp, pending = []\<rparr> \<lparr>server = tp, pending = []\<rparr> n ss ts
                 (map fst (information_schema_columns tdb n)) (introspected w sp tp n)) = Inr buf"
    and ok: "\<not> rejects tdb CommitTx"
    and acc: "\<forall>r \<in> set buf. accepted tdb (ts, n, map fst (information_schema_columns sdb n)) r"
  shows "fst (p_move_data_for_table n ss ts w) = Inr () \<and>
         files (snd (p_move_data_for_table n ss ts w)) = files w \<and>
         map_of (servers (snd (p_move_data_for_table n ss ts w))) =
           (map_of (servers w))(tp \<mapsto> tdb\<lparr>tables := append_rows ts n
              (map (landed tdb (ts, n, map fst (information_schema_columns sdb n))) buf) (tables tdb)\<rparr>)"
proof -
  let ?src = "\<lparr>server = sp, pending = []\<rparr>" and ?tgt = "\<lparr>server = tp, pending = []\<rparr>"
  let ?tmpl = "(ts, n, map fst (information_schema_columns sdb n))"
  let ?sel = "select_source ?src ?tgt n ss ts (map fst (information_schema_columns tdb n)) (introspected w sp tp n)"
  obtain w5 where w5: "?sel = (Inr buf, w5)"
    using sel by (cases ?sel) auto
  have srv5: "servers w5 = servers w"
    using servers_select_source [of ?src ?tgt n ss ts "map fst (information_schema_columns tdb n)" "introspected w sp tp n"]
    by (simp add: w5)
  have fil5: "files w5 = files w"
    using files_select_source [of ?src ?tgt n ss ts "map fst (information_schema_columns tdb n)" "introspected w sp tp n"]
    by (simp add: w5)
  have reach: "open_and_select n ss ts w = (Inr (?src, ?tgt, ?tmpl, buf), w5)"
    using open_and_select_on [OF s sr t tr, of ss ts] by (simp add: w5)
  have db5: "map_of (servers w5) (server ?tgt) = Some tdb"
    using opens_server [OF t] by (simp add: srv5)
  obtain res w6 where loop: "transfer_loop ?tmpl buf ?tgt w5 = (res, w6)" by force
  have pend: "pending ?tgt = []" by simp
  from loop_stores [OF db5 ok pend acc] loop
  have res: "res = Inr ()" and fil6: "files w6 = files w5"
    and srv6: "map_of (servers w6) = (map_of (servers w5))(tp \<mapsto>
        tdb\<lparr>tables := append_rows ts n (map (landed tdb ?tmpl) buf) (tables tdb)\<rparr>)"
    by simp_all
  show ?thesis
    using run_after_select [OF reach] loop res fil6 srv6 fil5 srv5 by simp
qed

lemma find_append_rows_same:
  "find (\<lambda>t. tschema t = s \<and> tname t = n) (append_rows s n rs ts) =
   map_option (\<lambda>t. t\<lparr>stored := stored t @ rs\<rparr>) (find (\<lambda>t. tschema t = s \<and> tname t = n) ts)"
  by (induction ts) auto

lemma information_schema_append_rows:
  "information_schema_columns (db\<lparr>tables := append_rows s n rs (tables db)\<rparr>) m =
   information_schema_columns db m"
proof -
  have "concat (map columns (filter (\<lambda>t. tname t = m) (append_rows s n rs ts))) =
        concat (map columns (filter (\<lambda>t. tname t = m) ts))" for ts
    by (induction ts) auto
  then show ?thesis by (simp add: information_schema_columns_def)
qed

lemma opens_after:
  assumes "opens path w p db" and "files w' = files w" and "map_of (servers w') p = Some db'"
  shows "opens path w' p db'"
  using assms by (auto simp: opens_def safe_load_file_def split: sum.splits)

lemma field_same_columns:
  "column_names t' = column_names t \<Longrightarrow> field t' r c = field t r c"
  by (simp add: field_def)

lemma aligned_delta_is_idempotent:
  assumes s: "opens ''config/source_db.yml'' w sp sdb" and t: "opens ''config/target_db.yml'' w tp tdb"
    and diff: "sp \<noteq> tp"
    and qs: "\<forall>st. \<not> rejects sdb st" and qt: "\<forall>st. \<not> rejects tdb st"
    and S: "find_table sdb ss n = Some S" and Sc: "information_schema_columns sdb n = columns S"
    and T: "find_table tdb ts n = Some T" and Tc: "information_schema_columns tdb n = columns T"
    and same: "column_names S = column_names T"
    and dist: "distinct (column_names T)" and ud: "''updated_date'' \<in> set (column_names T)"
    and arity: "\<forall>r \<in> set (stored S). length r = length (column_names S)"
    and mark: "sql_max (map (\<lambda>r. field T r ''updated_date'') (stored T)) = Num W"
  shows "fst (p_move_data_for_table n ss ts w) = Inr () \<and>
         map_of (servers (snd (p_move_data_for_table n ss ts w))) tp =
           Some (tdb\<lparr>tables := append_rows ts n
                   (filter (\<lambda>r. newer_than W (field S r ''updated_date'')) (stored S)) (tables tdb)\<rparr>) \<and>
         fst (p_move_data_for_table n ss ts (snd (p_move_data_for_table n ss ts w))) = Inr () \<and>
         map_of (servers (snd (p_move_data_for_table n ss ts (snd (p_move_data_for_table n ss ts w))))) =
           map_of (servers (snd (p_move_data_for_table n ss ts w)))"
proof -
  let ?cs = "column_names T"
  let ?new = "filter (\<lambda>r. newer_than W (field S r ''updated_date'')) (stored S)"
  let ?src = "\<lparr>server = sp, pending = []\<rparr>" and ?tgt = "\<lparr>server = tp, pending = []\<rparr>"
  have scols: "map fst (information_schema_columns sdb n) = ?cs"
    using same by (simp add: Sc column_names_def)
  have tcols: "map fst (information_schema_columns tdb n) = ?cs"
    by (simp add: Tc column_names_def)
  have ne: "?cs \<noteq> []" using ud by auto
  have nomiss: "missing_column S (?cs @ [''updated_date'']) = None"
    using ud by (auto simp add: missing_column_def same find_None_iff)
  have proj: "map (\<lambda>r. map (field S r) ?cs) rs = rs" if "set rs \<subseteq> set (stored S)" for rs
  proof -
    have "map (field S r) ?cs = r" if "r \<in> set rs" for r
      using project_own_columns [of S r] that \<open>set rs \<subseteq> set (stored S)\<close> arity dist same
      by auto
    then show ?thesis by (simp add: map_idI)
  qed
  have query: "eval_query sdb (SelectFrom ?cs ss n (Some (Num m))) =
                 Inr (filter (\<lambda>r. newer_than m (field S r ''updated_date'')) (stored S))" for m
    using S nomiss proj [of "filter (\<lambda>r. newer_than m (field S r ''updated_date'')) (stored S)"]
    by (simp add: eval_query_def)
  have ins: "insert_result db (ts, n, ?cs) r = Inr r"
    if "find_table db ts n = Some T'" "column_names T' = ?cs" "\<forall>st. \<not> rejects db st" "r \<in> set (stored S)"
    for db T' r
    using insert_own_columns [of db ts n T' r] that dist ne arity same by simp

  let ?w4 = "introspected w sp tp n"
  have sel1: "fst (select_source ?src ?tgt n ss ts (map fst (information_schema_columns tdb n)) ?w4) = Inr ?new"
    unfolding tcols
    using select_source_delta [of ?w4 ?tgt tdb ?src sdb ts n T W ?cs ss]
      opens_server [OF s] opens_server [OF t] T ud mark qs qt query [of W]
    by simp
  have acc1: "\<forall>r \<in> set ?new. accepted tdb (ts, n, map fst (information_schema_columns sdb n)) r"
    unfolding scols using ins [OF T refl qt] by (simp add: accepted_def)
  have land1: "map (landed tdb (ts, n, ?cs)) ?new = ?new"
    by (rule map_idI) (simp add: landed_def ins [OF T refl qt])
  let ?run1 = "p_move_data_for_table n ss ts w"
  let ?tdb1 = "tdb\<lparr>tables := append_rows ts n ?new (tables tdb)\<rparr>"
  from run_transfers [OF s _ t _ sel1 _ acc1]
  have r1: "fst ?run1 = Inr ()" and f1: "files (snd ?run1) = files w"
    and s1: "map_of (servers (snd ?run1)) = (map_of (servers w))(tp \<mapsto> ?tdb1)"
    using qs qt by (simp_all add: scols land1)

  let ?w1 = "snd ?run1"
  let ?T1 = "T\<lparr>stored := stored T @ ?new\<rparr>"
  have os: "opens ''config/source_db.yml'' ?w1 sp sdb"
    using opens_after [OF s f1, of sdb] opens_server [OF s] diff by (simp add: s1)
  have ot: "opens ''config/target_db.yml'' ?w1 tp ?tdb1"
    using opens_after [OF t f1, of ?tdb1] by (simp add: s1)
  have T1: "find_table ?tdb1 ts n = Some ?T1"
    using T by (simp add: find_table_def find_append_rows_same)
  have qt1: "\<forall>st. \<not> rejects ?tdb1 st" using qt by simp
  have tcols1: "map fst (information_schema_columns ?tdb1 n) = ?cs"
    by (simp add: information_schema_append_rows tcols)
  have cn1: "column_names ?T1 = ?cs" by (simp add: column_names_def)
  let ?old = "map (\<lambda>r. field T r ''updated_date'') (stored T)"
  let ?all = "map (\<lambda>r. field ?T1 r ''updated_date'') (stored ?T1)"
  have all: "?all = ?old @ map (\<lambda>r. field S r ''updated_date'') ?new"
    by (simp add: field_same_columns [OF cn1] field_same_columns [OF same [symmetric]])
  have "Num W \<in> set ?all"
    using sql_max_in [OF mark] unfolding all by simp
  then obtain W1 where W1: "sql_max ?all = Num W1" and le: "W \<le> W1"
    using sql_max_ge by blast
  have none: "filter (\<lambda>r. newer_than W1 (field S r ''updated_date'')) (stored S) = []"
  proof -
    have "\<not> newer_than W1 (field S r ''updated_date'')" if r: "r \<in> set (stored S)" for r
    proof (cases "field S r ''updated_date''")
      case Null
      then show ?thesis by simp
    next
      case (Num a)
      show ?thesis
      proof
        assume "newer_than W1 (field S r ''updated_date'')"
        with Num have a: "W1 < a" by simp
        with le have "newer_than W (field S r ''updated_date'')" using Num by simp
        with r have "r \<in> set ?new" by simp
        then have "Num a \<in> set ?all" unfolding all using Num by force
        from sql_max_ge [OF this] W1 a show False by simp
      qed
    qed
    then show ?thesis by (simp add: filter_empty_conv)
  qed
  let ?w4' = "introspected ?w1 sp tp n"
  have db_t: "map_of (servers ?w4') (server ?tgt) = Some ?tdb1" by (simp add: s1)
  have db_s: "map_of (servers ?w4') (server ?src) = Some sdb"
    using opens_server [OF os] by simp
  have ud1: "''updated_date'' \<in> set (column_names ?T1)" using ud by (simp add: cn1)
  have sel2: "fst (select_source ?src ?tgt n ss ts (map fst (information_schema_columns ?tdb1 n)) ?w4') = Inr []"
    unfolding tcols1
    using select_source_delta [OF db_t db_s T1 _ _ ud1 W1, of ?cs ss] qs qt query [of W1] none
    by simp
  have acc2: "\<forall>r \<in> set []. accepted ?tdb1 (ts, n, map fst (information_schema_columns sdb n)) r"
    by simp
  from run_transfers [OF os _ ot _ sel2 _ acc2]
  have r2: "fst (p_move_data_for_table n ss ts ?w1) = Inr ()"
    and s2: "map_of (servers (snd (p_move_data_for_table n ss ts ?w1))) =
               (map_of (servers ?w1))(tp \<mapsto> ?tdb1\<lparr>tables := append_rows ts n [] (tables ?tdb1)\<rparr>)"
    using qs qt by simp_all
  have "(map_of (servers ?w1))(tp \<mapsto> ?tdb1\<lparr>tables := append_rows ts n [] (tables ?tdb1)\<rparr>) = map_of (servers ?w1)"
    by (simp add: s1)
  with r1 s1 r2 s2 show ?thesis by simp
qed

subsection \<open>Column lists\<close>

text \<open>
  C2. The claim wants the INSERT to name the target's columns, in the order of the SELECT.
  The code builds the SELECT from \<open>l_target_columns\<close> but the INSERT from
  \<open>l_source_columns\<close>. Here the source lists \<open>id, stock, updated_date\<close> and the target
  \<open>stock, id, updated_date\<close>: the run succeeds, and the source row with \<open>id = 1\<close> and
  \<open>stock = 50\<close> is stored in the target with \<open>id = 50\<close> and \<open>stock = 1\<close>.
\<close>

theorem insert_columns_from_source:
  "fst (p_move_data_for_table ''products'' ''core'' ''dwh'' reordered_world) = Inr () \<and>
   map (\<lambda>t. map (\<lambda>r. map (field t r) [''id'', ''stock'', ''updated_date'']) (stored t))
     (source_tables reordered_world) = [[[Num 1, Num 50, Num 10]]] \<and>
   map (\<lambda>t. map (\<lambda>r. map (field t r) [''id'', ''stock'', ''updated_date'']) (stored t))
     (target_tables (snd (p_move_data_for_table ''products'' ''core'' ''dwh'' reordered_world))) =
     [[[Num 50, Num 1, Num 10]]]"
  by code_simp

text \<open>
  C7. With a non-empty target and watermark 10, the delta load selects the two source rows
  with \<open>updated_date\<close> 20 and 30. The source lists \<open>created_date\<close> before
  \<open>updated_date\<close> and the target the other way round, so the INSERT, which names the source's columns, has the rows
  stored with the two dates exchanged, \<open>updated_date\<close> 5 and 6, and the watermark stays
  10. A second run on the unchanged source inserts the same two rows again.
\<close>

theorem rerun_inserts_again:
  "fst (p_move_data_for_table ''products'' ''core'' ''dwh'' dated_world) = Inr () \<and>
   map stored (target_tables (snd (p_move_data_for_table ''products'' ''core'' ''dwh'' dated_world))) =
     [[[Num 0, Num 10, Num 1], [Num 1, Num 5, Num 20], [Num 2, Num 6, Num 30]]] \<and>
   source_tables (snd (p_move_data_for_table ''products'' ''core'' ''dwh'' dated_world)) =
     source_tables dated_world \<and>
   fst (p_move_data_for_table ''products'' ''core'' ''dwh''
         (snd (p_move_data_for_table ''products'' ''core'' ''dwh'' dated_world))) = Inr () \<and>
   map stored (target_tables (snd (p_move_data_for_table ''products'' ''core'' ''dwh''
         (snd (p_move_data_for_table ''products'' ''core'' ''dwh'' dated_world))))) =
     [[[Num 0, Num 10, Num 1], [Num 1, Num 5, Num 20], [Num 2, Num 6, Num 30],
       [Num 1, Num 5, Num 20], [Num 2, Num 6, Num 30]]]"
  by code_simp

subsection \<open>Release of the connections and propagation of errors\<close>

text \<open>
  What the \<open>finally\<close> block does to the exception on its way: it is replaced by
  AttributeError when a connection has not been opened, and handed on unchanged when both
  have.
\<close>

lemma source_failure_masked:
  assumes "p_connect_to_source w = (Inl e, w1)"
  shows "p_move_data_for_table n ss ts w = (Inl AttributeError, report e w1)"
  using assms
  by (simp add: p_move_data_for_table_def move_body_def open_and_select_def finally_close_def)

lemma target_failure_masked:
  assumes "p_connect_to_source w = (Inr src, w1)"
    and "p_get_table_definition src n w1 = (Inr sdef, w2)"
    and "p_connect_to_target w2 = (Inl e, w3)"
  shows "p_move_data_for_table n ss ts w = (Inl AttributeError, close src (report e w3))"
  using assms
  by (simp add: p_move_data_for_table_def move_body_def open_and_select_def finally_close_def Let_def)

lemma error_reraised_when_both_open:
  assumes "open_and_select n ss ts w = (Inl (e, Some src, Some tgt), w5)"
  shows "p_move_data_for_table n ss ts w = (Inl e, close tgt (close src (report e w5)))"
  using assms
  by (simp add: p_move_data_for_table_def move_body_def finally_close_def Let_def)

text \<open>
  Each \<open>except\<close> clause reports the exception it caught and raises the same one again.
\<close>

lemma read_config_reraises:
  assumes "p_read_config i_yaml_file w = (Inl e, w')"
  shows "safe_load_file i_yaml_file w = Inl e \<and> w' = report e w"
  using assms by (auto simp: p_read_config_def split: sum.splits)

lemma get_table_definition_reraises:
  assumes "p_get_table_definition c n w = (Inl e, w')"
  shows "fst (catalog_query c n w) = Inl e \<and> w' = report e (snd (catalog_query c n w))"
  using assms by (auto simp: p_get_table_definition_def split: prod.splits sum.splits)

lemma connect_reraises:
  assumes "connect_from path w = (Inl e, w')"
  shows "e \<in> set (error_log w')"
  using assms
  by (auto simp: connect_from_def p_read_config_def split: prod.splits sum.splits)

text \<open>
  Whatever the outcome, the sessions that were opened are closed again: the open sessions
  after the run are those before it.
\<close>

lemma sessions_emit [simp]: "sessions (emit ev w) = sessions w"
  by (simp add: emit_def)

lemma sessions_report [simp]: "sessions (report e w) = sessions w"
  by (simp add: report_def)

lemma sessions_close [simp]: "sessions (close c w) = remove1 (server c) (sessions w)"
  by (simp add: close_def)

lemma sessions_execute [simp]: "sessions (snd (execute c st w)) = sessions w"
  by (simp add: execute_def Let_def split: option.splits)

lemma sessions_get_table_definition [simp]:
  "sessions (snd (p_get_table_definition c n w)) = sessions w"
  by (auto simp: p_get_table_definition_def catalog_query_def Let_def split: option.splits)

lemma sessions_select_source [simp]:
  "sessions (snd (select_source src tgt n ss ts cols w)) = sessions w"
proof -
  have e: "execute c st w0 = (r, w1) \<Longrightarrow> sessions w1 = sessions w0" for c st w0 r w1
    using sessions_execute [of c st w0] by simp
  show ?thesis
    by (auto simp: select_source_def split: prod.splits sum.splits dest!: e)
qed

lemma sessions_connect_from:
  "sessions (snd (connect_from path w)) =
     (case fst (connect_from path w) of Inl e \<Rightarrow> sessions w | Inr c \<Rightarrow> server c # sessions w)"
  by (auto simp: connect_from_def p_read_config_def connect_with_def psycopg2_connect_def
      split: sum.splits option.splits prod.splits)

lemma sessions_loop [simp]:
  "sessions (snd (transfer_loop tmpl buf c w)) = sessions w"
proof (induction tmpl buf c w rule: transfer_loop.induct)
  case (1 tmpl buf c w)
  show ?case
  proof (cases "take 1000 buf = []")
    case True
    then show ?thesis by (subst transfer_loop.simps) (simp add: Let_def)
  next
    case False
    let ?w1 = "emit (Fetched (take 1000 buf)) w"
    obtain r2 w2 where ex: "executemany tmpl (take 1000 buf) c ?w1 = (r2, w2)" by force
    then have t2: "sessions w2 = sessions w"
      by (auto simp: executemany_def)
    show ?thesis
    proof (cases r2)
      case (Inl e)
      then show ?thesis using False ex t2
        by (subst transfer_loop.simps) (simp add: Let_def)
    next
      case (Inr c2)
      obtain r3 w3 where co: "commit c2 w2 = (r3, w3)" by force
      then have t3: "sessions w3 = sessions w2"
        by (auto simp: commit_def Let_def split: option.splits if_splits)
      show ?thesis
      proof (cases r3)
        case (Inl e)
        then show ?thesis using False ex Inr co t2 t3
          by (subst transfer_loop.simps) (simp add: Let_def)
      next
        case (Inr c3)
        have "sessions (snd (transfer_loop tmpl (drop 1000 buf) c3 w3)) = sessions w3"
          using "1.IH" [OF refl refl False ex [symmetric] \<open>r2 = Inr c2\<close> co [symmetric] Inr] .
        then show ?thesis using False ex \<open>r2 = Inr c2\<close> co Inr t2 t3
          by (subst transfer_loop.simps) (simp add: Let_def)
      qed
    qed
  qed
qed

text \<open>The sessions that the local variables stand for.\<close>

lemma sessions_open_and_select:
  "sessions (snd (open_and_select n ss ts w)) =
     (case fst (open_and_select n ss ts w) of
        Inl (e, None, h) \<Rightarrow> sessions w
      | Inl (e, Some src, None) \<Rightarrow> server src # sessions w
      | Inl (e, Some src, Some tgt) \<Rightarrow> server tgt # server src # sessions w
      | Inr (src, tgt, tmpl, buf) \<Rightarrow> server tgt # server src # sessions w)"
proof -
  have c: "connect_from path w0 = (r, w1) \<Longrightarrow>
      sessions w1 = (case r of Inl e \<Rightarrow> sessions w0 | Inr c \<Rightarrow> server c # sessions w0)" for path w0 r w1
    using sessions_connect_from [of path w0] by simp
  have g: "p_get_table_definition c0 n0 w0 = (r, w1) \<Longrightarrow> sessions w1 = sessions w0" for c0 n0 w0 r w1
    using sessions_get_table_definition [of c0 n0 w0] by simp
  have s: "select_source a b c0 d e f w0 = (r, w1) \<Longrightarrow> sessions w1 = sessions w0" for a b c0 d e f w0 r w1
    using sessions_select_source [of a b c0 d e f w0] by simp
  show ?thesis
    by (auto simp: open_and_select_def p_connect_to_source_def p_connect_to_target_def Let_def
        split: prod.splits sum.splits dest!: c g s)
qed

lemma acquired_sessions_released:
  "sessions (snd (p_move_data_for_table n ss ts w)) = sessions w"
proof -
  obtain r w5 where os: "open_and_select n ss ts w = (r, w5)" by force
  note ses = sessions_open_and_select [of n ss ts w, unfolded os, simplified]
  show ?thesis
  proof (cases r)
    case (Inl a)
    then obtain e hs ht where a: "r = Inl (e, hs, ht)" by (cases a) auto
    then show ?thesis
      using os ses
      by (cases hs; cases ht)
        (auto simp: p_move_data_for_table_def move_body_def finally_close_def Let_def)
  next
    case (Inr b)
    then obtain src tgt tmpl buf where b: "r = Inr (src, tgt, tmpl, buf)" by (cases b) auto
    obtain res w6 where loop: "transfer_loop tmpl buf tgt w5 = (res, w6)" by force
    have "sessions w6 = sessions w5"
      using sessions_loop [of tmpl buf tgt w5] by (simp add: loop)
    then show ?thesis
      using os ses b loop run_after_select [of n ss ts w src tgt tmpl buf w5]
      by (cases res) auto
  qed
qed

text \<open>
  C4. The claim wants every release step to work on each exit path. When the source store
  refuses the connection, \<open>l_connection_source\<close> is still \<open>None\<close> in the \<open>finally\<close>
  block, \<open>l_connection_source.close()\<close> raises AttributeError, and that is what the caller
  gets; the OperationalError has only been reported (by \<open>p_connect_to_source\<close> and by
  \<open>p_move_data_for_table\<close>).
\<close>

theorem close_on_missing_handle:
  "fst (p_move_data_for_table ''products'' ''core'' ''dwh'' source_unreachable) = Inl AttributeError \<and>
   error_log (snd (p_move_data_for_table ''products'' ''core'' ''dwh'' source_unreachable)) =
     [OperationalError, OperationalError]"
  by code_simp

text \<open>
  C9. The claim wants every component to raise again the exception it caught. When the
  target's configuration file is missing, \<open>p_read_config\<close> and \<open>p_move_data_for_table\<close>
  report FileNotFoundError, but the caller gets the AttributeError of
  \<open>l_connection_target.close()\<close> on \<open>None\<close>, which nobody reported.
\<close>

theorem original_error_replaced:
  "fst (p_move_data_for_table ''products'' ''core'' ''dwh'' target_config_missing) = Inl AttributeError \<and>
   error_log (snd (p_move_data_for_table ''products'' ''core'' ''dwh'' target_config_missing)) =
     [FileNotFoundError ''config/target_db.yml'', FileNotFoundError ''config/target_db.yml'']"
  by code_simp

end
